theory Spec2Isabelle
  imports Complex_Main "HOL-Library.Word"
begin

unbundle bit_operations_syntax

section \<open>Data model\<close>

text \<open>
  The repository has two layers. The inner one is the Zig module compiled to WebAssembly
  (the exports \<open>create\<close>, \<open>destroy\<close>, \<open>nextU64\<close>, \<open>nextF64\<close>, \<open>nextU32Range\<close> over the
  global array \<open>instances\<close>). The outer one is the TypeScript class \<open>Prng\<close> over the
  global array of module instances. The generator itself is \<open>std.Random.DefaultPrng\<close>
  of the Zig standard library: the repository only calls it, so the four library
  functions the exports use are modelled from the specification, each marked as such.
\<close>

type_synonym u32 = "32 word"
type_synonym u64 = "64 word"

text \<open>GeneratorState: four unsigned 64-bit words.\<close>

record xoshiro =
  s0 :: u64
  s1 :: u64
  s2 :: u64
  s3 :: u64

text \<open>\<open>const MAX_INSTANCES = 256;\<close>\<close>

definition MAX_INSTANCES :: nat where
  "MAX_INSTANCES = 256"

text \<open>
  \<open>var instances: [MAX_INSTANCES]?std.Random.DefaultPrng\<close>: an array of optional
  generators. A well-formed array has exactly \<open>MAX_INSTANCES\<close> slots; the theorems
  about a slot that is read carry this length as a hypothesis.
\<close>

type_synonym instances = "xoshiro option list"

text \<open>The initial value of the array, \<open>[_]?std.Random.DefaultPrng{null} ** MAX_INSTANCES\<close>.\<close>

definition fresh_instances :: instances where
  "fresh_instances = replicate MAX_INSTANCES None"

section \<open>The generator library\<close>

text \<open>
  Modelled from the spec: \<open>rotl(x,k)\<close>, the 64-bit left rotation by \<open>k\<close> bits (section 4.1),
  written with the two shifts so that it evaluates; the library function behind it is
  not part of the repository.
\<close>

definition rotl :: "u64 \<Rightarrow> nat \<Rightarrow> u64" where
  "rotl x k = push_bit k x OR drop_bit (64 - k) x"

text \<open>
  Modelled from the spec: the bit generator \<open>next() -> u64\<close> of section 4.1, standing for
  \<open>std.Random.DefaultPrng\<close>'s step, which is not part of the repository. The steps are
  the four numbered ones of the specification, in their order; it returns the result
  and the updated state.
\<close>

definition xoshiro_next :: "xoshiro \<Rightarrow> u64 \<times> xoshiro" where
  "xoshiro_next st =
     (let result = rotl (s1 st * 5) 7 * 9;
          t = push_bit 17 (s1 st);
          st = st\<lparr>s2 := s2 st XOR s0 st\<rparr>;
          st = st\<lparr>s3 := s3 st XOR s1 st\<rparr>;
          st = st\<lparr>s1 := s1 st XOR s2 st\<rparr>;
          st = st\<lparr>s0 := s0 st XOR s3 st\<rparr>;
          st = st\<lparr>s2 := s2 st XOR t\<rparr>;
          st = st\<lparr>s3 := rotl (s3 st) 45\<rparr>
      in (result, st))"

text \<open>
  Modelled from the spec: the mixing function of the seed expander (section 4.2,
  "SplitMix64 or equivalent ... incrementing an internal golden-ratio constant each
  iteration"). The specification names SplitMix64 and gives no constants; the ones
  here are those of SplitMix64. It returns the output and the advanced counter.
\<close>

definition splitmix_next :: "u64 \<Rightarrow> u64 \<times> u64" where
  "splitmix_next c =
     (let c = c + 0x9e3779b97f4a7c15;
          z = c;
          z = (z XOR drop_bit 30 z) * 0xbf58476d1ce4e5b9;
          z = (z XOR drop_bit 27 z) * 0x94d049bb133111eb
      in (z XOR drop_bit 31 z, c))"

text \<open>
  Modelled from the spec: \<open>expand(seed: u64) -> GeneratorState\<close> of section 4.2, standing
  for \<open>std.Random.DefaultPrng.init\<close>: the mixing function iterated four times from the
  seed populates \<open>s0..s3\<close>.
\<close>

definition xoshiro_init :: "u64 \<Rightarrow> xoshiro" where
  "xoshiro_init seed =
     (case splitmix_next seed of (a, c) \<Rightarrow>
      case splitmix_next c of (b, c) \<Rightarrow>
      case splitmix_next c of (d, c) \<Rightarrow>
      case splitmix_next c of (e, c) \<Rightarrow>
        \<lparr>s0 = a, s1 = b, s2 = d, s3 = e\<rparr>)"

text \<open>
  Modelled from the spec: \<open>nextU64(state) -> u64\<close> of section 4.3, standing for
  \<open>prng.random().int(u64)\<close>: the bit generator's word, unmodified.
\<close>

definition int_u64 :: "xoshiro \<Rightarrow> u64 \<times> xoshiro" where
  "int_u64 st = xoshiro_next st"

text \<open>
  Modelled from the spec: \<open>nextF64(state) -> f64\<close> of section 4.3, standing for
  \<open>prng.random().float(f64)\<close>: the high 53 bits of a freshly generated word, divided by
  \<open>2^53\<close>. The result is a rational here. Every value of this form is a multiple of
  \<open>2^-53\<close> below 1, which binary64 represents exactly, so the rational is the float.
\<close>

definition float_f64 :: "xoshiro \<Rightarrow> rat \<times> xoshiro" where
  "float_f64 st =
     (case xoshiro_next st of (w, st') \<Rightarrow> (of_int (uint (drop_bit 11 w)) / 2 ^ 53, st'))"

text \<open>
  Modelled from the spec: the bias-rejection loop of section 4.3 ("draw 64-bit words and
  reduce modulo \<open>span+1\<close> using a bias-rejection scheme"). The specification leaves the
  scheme open; this is the plain one: with \<open>n = span + 1\<close>, a word is rejected when it
  lies in the incomplete last block of size \<open>2^64 mod n\<close>, and reduced modulo \<open>n\<close>
  otherwise. \<open>(0 - n) mod n\<close> is \<open>2^64 mod n\<close> in wrapping arithmetic. The loop has no
  bound, so not returning is the value \<open>None\<close>.
\<close>

partial_function (option) reject_loop :: "u64 \<Rightarrow> xoshiro \<Rightarrow> (u64 \<times> xoshiro) option" where
  "reject_loop n st =
     (case xoshiro_next st of (w, st') \<Rightarrow>
        if w \<le> - ((0 - n) mod n) - 1 then Some (w mod n, st') else reject_loop n st')"

declare reject_loop.simps [code]

text \<open>
  Modelled from the spec: \<open>nextU32Range(state, min, max) -> u32\<close> of section 4.3, standing
  for \<open>prng.random().intRangeAtMost(u32, min, max)\<close>. An inverted range returns \<open>min\<close>
  without generating; \<open>min = max\<close> returns \<open>min\<close> without consuming a word (the first
  of the two choices the specification allows); otherwise \<open>span = max - min\<close> and the
  result is \<open>min\<close> plus a word reduced modulo \<open>span + 1\<close> by the rejection loop.
\<close>

definition intRangeAtMost :: "xoshiro \<Rightarrow> u32 \<Rightarrow> u32 \<Rightarrow> (u32 \<times> xoshiro) option" where
  "intRangeAtMost st min' max' =
     (if max' < min' then Some (min', st)
      else if min' = max' then Some (min', st)
      else (let span = max' - min'
            in map_option (\<lambda>(v, st'). (min' + ucast v, st'))
                 (reject_loop (ucast span + 1) st)))"

section \<open>The module's exports\<close>

text \<open>
  Handles are \<open>i32\<close> in the source. They are integers here: no arithmetic is done on a
  handle, only the two comparisons of the bounds check, so every \<open>i32\<close> is covered and
  nothing can wrap.
\<close>

text \<open>
  \<open>create\<close>: the loop \<open>for (0..MAX_INSTANCES) |i|\<close> from index \<open>i\<close> on. The first
  \<open>null\<close> slot receives the new generator and its index is returned; after the last
  slot the function returns \<open>-1\<close>.
\<close>

function create_from :: "nat \<Rightarrow> u64 \<Rightarrow> instances \<Rightarrow> int \<times> instances" where
  "create_from i s insts =
     (if i < MAX_INSTANCES then
        (if insts ! i = None then (int i, insts[i := Some (xoshiro_init s)])
         else create_from (Suc i) s insts)
      else (- 1, insts))"
  by pat_completeness auto
termination
  by (relation "measure (\<lambda>(i, s, insts). MAX_INSTANCES - i)") auto

declare create_from.simps [simp del]

definition create :: "u64 \<Rightarrow> instances \<Rightarrow> int \<times> instances" where
  "create s insts = create_from 0 s insts"

definition destroy :: "int \<Rightarrow> instances \<Rightarrow> instances" where
  "destroy handle insts =
     (if handle \<ge> 0 \<and> handle < int MAX_INSTANCES then insts[nat handle := None]
      else insts)"

text \<open>
  The three draws share one shape: the bounds check, then the payload capture
  \<open>if (instances[handle]) |*prng|\<close>, which hands the library a pointer to the stored
  generator, so the state the library leaves is written back to the same slot.
\<close>

definition nextU64 :: "int \<Rightarrow> instances \<Rightarrow> u64 \<times> instances" where
  "nextU64 handle insts =
     (if handle \<ge> 0 \<and> handle < int MAX_INSTANCES then
        (case insts ! nat handle of
           Some prng \<Rightarrow>
             (case int_u64 prng of (r, prng') \<Rightarrow> (r, insts[nat handle := Some prng']))
         | None \<Rightarrow> (0, insts))
      else (0, insts))"

definition nextF64 :: "int \<Rightarrow> instances \<Rightarrow> rat \<times> instances" where
  "nextF64 handle insts =
     (if handle \<ge> 0 \<and> handle < int MAX_INSTANCES then
        (case insts ! nat handle of
           Some prng \<Rightarrow>
             (case float_f64 prng of (r, prng') \<Rightarrow> (r, insts[nat handle := Some prng']))
         | None \<Rightarrow> (0, insts))
      else (0, insts))"

text \<open>
  \<open>nextU32Range\<close> has no check of its own on \<open>min\<close> and \<open>max\<close>: for an occupied slot
  both go to the library unchanged. The result is optional because the library's
  rejection loop is.
\<close>

definition nextU32Range :: "int \<Rightarrow> u32 \<Rightarrow> u32 \<Rightarrow> instances \<Rightarrow> (u32 \<times> instances) option" where
  "nextU32Range handle min' max' insts =
     (if handle \<ge> 0 \<and> handle < int MAX_INSTANCES then
        (case insts ! nat handle of
           Some prng \<Rightarrow>
             map_option (\<lambda>(r, prng'). (r, insts[nat handle := Some prng']))
               (intRangeAtMost prng min' max')
         | None \<Rightarrow> Some (min', insts))
      else Some (min', insts))"

section \<open>The wrapper class and the registry of module instances\<close>

text \<open>
  \<open>const instances: WasmExports[]\<close>: the registry, a growing array of module instances,
  each with its own \<open>instances\<close> array. A \<open>Prng\<close> object holds a reference to one
  module instance and a handle; the registry is append-only, so the reference is the
  position of the module in it.
\<close>

type_synonym registry = "instances list"

record prng =
  instance_ix :: nat
  handle :: int

text \<open>
  The three errors the wrapper can raise: the \<open>throw\<close> at the end of \<open>Prng.create\<close>
  (the specification's \<open>NoCapacity\<close>), a rejected \<open>createWasmInstance()\<close>
  (\<open>InstantiationFailure\<close>), and the \<open>throw\<close> of \<open>createAsync\<close> when the new module
  returns a negative handle.
\<close>

datatype error = NoCapacity | InstantiationFailure | NewModuleFull

text \<open>
  \<open>BigInt(seed)\<close> passed to an \<open>i64\<close> parameter, read as \<open>u64\<close> by the module: the
  integer modulo \<open>2^64\<close>. Seeds are integers here; \<open>BigInt\<close> of a number with a
  fraction raises before the module is called.
\<close>

definition seed_u64 :: "int \<Rightarrow> u64" where
  "seed_u64 seed = word_of_int seed"

text \<open>
  \<open>for (const inst of instances)\<close> of \<open>Prng.create\<close> and \<open>Prng.createAsync\<close>, from
  position \<open>i\<close> on: each module is asked to \<open>create\<close>; the first non-negative handle
  ends the loop. Every module visited is returned as \<open>create\<close> left it.
\<close>

fun scan_instances :: "u64 \<Rightarrow> nat \<Rightarrow> registry \<Rightarrow> prng option \<times> registry" where
  "scan_instances s i [] = (None, [])"
| "scan_instances s i (inst # rest) =
     (case create s inst of (h, inst') \<Rightarrow>
        if h \<ge> 0 then (Some \<lparr>instance_ix = i, handle = h\<rparr>, inst' # rest)
        else (case scan_instances s (Suc i) rest of (r, rest') \<Rightarrow> (r, inst' # rest')))"

text \<open>An exception leaves the registry as it is at the \<open>throw\<close>, so every outcome carries one.\<close>

definition Prng_create :: "int \<Rightarrow> registry \<Rightarrow> (error + prng) \<times> registry" where
  "Prng_create seed reg =
     (case scan_instances (seed_u64 seed) 0 reg of
        (Some p, reg') \<Rightarrow> (Inr p, reg')
      | (None, reg') \<Rightarrow> (Inl NoCapacity, reg'))"

text \<open>
  \<open>Prng.createAsync\<close> is an \<open>async\<close> function with one suspension point, the
  \<open>await createWasmInstance()\<close> between the scan and \<open>instances.push\<close>. Up to
  the \<open>await\<close> and from it on the body runs without interruption, so the call is two
  steps, and other calls may run between them.

  The first step is the scan. With a handle found the promise is resolved at once
  (\<open>Some\<close>); otherwise the call is suspended at the \<open>await\<close> (\<open>None\<close>).
\<close>

definition createAsync_start :: "int \<Rightarrow> registry \<Rightarrow> prng option \<times> registry" where
  "createAsync_start seed reg = scan_instances (seed_u64 seed) 0 reg"

text \<open>
  The second step, run when the \<open>await\<close> settles, on the registry as it is then. The
  flag \<open>ok\<close> is the outcome of \<open>createWasmInstance()\<close>, which belongs to the host:
  \<open>True\<close> when it resolves, to a module whose array has its initial value. The new
  module is pushed whatever the other modules hold by now, and the seed is allocated
  in it.
\<close>

definition createAsync_resume :: "int \<Rightarrow> bool \<Rightarrow> registry \<Rightarrow> (error + prng) \<times> registry" where
  "createAsync_resume seed ok reg =
     (if \<not> ok then (Inl InstantiationFailure, reg)
      else (case create (seed_u64 seed) fresh_instances of (h, newInst) \<Rightarrow>
              if h < 0 then (Inl NewModuleFull, reg @ [newInst])
              else (Inr \<lparr>instance_ix = length reg, handle = h\<rparr>, reg @ [newInst])))"

text \<open>
  \<open>await Prng.createAsync(seed)\<close> with no other call in flight: the two steps one
  after the other on the same registry. Calls issued together are \<open>createAsync_together\<close>
  below.
\<close>

definition Prng_createAsync :: "int \<Rightarrow> bool \<Rightarrow> registry \<Rightarrow> (error + prng) \<times> registry" where
  "Prng_createAsync seed ok reg =
     (case createAsync_start seed reg of
        (Some p, reg') \<Rightarrow> (Inr p, reg')
      | (None, reg') \<Rightarrow> createAsync_resume seed ok reg')"

text \<open>
  The methods of a \<open>Prng\<close> object call its module with its handle. The constructor
  is private, so every object comes from \<open>Prng.create\<close> or \<open>Prng.createAsync\<close> and
  its module is in the registry; the position is read without a check. The arguments
  of \<open>nextU32Range\<close> are the two numbers as the module receives them, 32-bit words.
\<close>

definition Prng_nextU64 :: "prng \<Rightarrow> registry \<Rightarrow> u64 \<times> registry" where
  "Prng_nextU64 p reg =
     (case nextU64 (handle p) (reg ! instance_ix p) of
        (r, inst') \<Rightarrow> (r, reg[instance_ix p := inst']))"

definition Prng_nextF64 :: "prng \<Rightarrow> registry \<Rightarrow> rat \<times> registry" where
  "Prng_nextF64 p reg =
     (case nextF64 (handle p) (reg ! instance_ix p) of
        (r, inst') \<Rightarrow> (r, reg[instance_ix p := inst']))"

definition Prng_nextU32Range :: "prng \<Rightarrow> u32 \<Rightarrow> u32 \<Rightarrow> registry \<Rightarrow> (u32 \<times> registry) option" where
  "Prng_nextU32Range p min' max' reg =
     map_option (\<lambda>(r, inst'). (r, reg[instance_ix p := inst']))
       (nextU32Range (handle p) min' max' (reg ! instance_ix p))"

definition Prng_destroy :: "prng \<Rightarrow> registry \<Rightarrow> registry" where
  "Prng_destroy p reg = reg[instance_ix p := destroy (handle p) (reg ! instance_ix p)]"

section \<open>Sequences of operations\<close>

text \<open>A draw operation with its arguments fixed, and the value it returns.\<close>

datatype draw = NextU64 | NextF64 | NextU32Range u32 u32

datatype drawn = U64 u64 | F64 rat | U32 u32

definition draw1 :: "int \<Rightarrow> draw \<Rightarrow> instances \<Rightarrow> (drawn \<times> instances) option" where
  "draw1 h d insts =
     (case d of
        NextU64 \<Rightarrow> (case nextU64 h insts of (r, insts') \<Rightarrow> Some (U64 r, insts'))
      | NextF64 \<Rightarrow> (case nextF64 h insts of (r, insts') \<Rightarrow> Some (F64 r, insts'))
      | NextU32Range min' max' \<Rightarrow>
          map_option (\<lambda>(r, insts'). (U32 r, insts')) (nextU32Range h min' max' insts))"

text \<open>The draws of a list on one handle, in order, with the values they return.\<close>

fun draws :: "int \<Rightarrow> draw list \<Rightarrow> instances \<Rightarrow> (drawn list \<times> instances) option" where
  "draws h [] insts = Some ([], insts)"
| "draws h (d # ds) insts =
     (case draw1 h d insts of
        None \<Rightarrow> None
      | Some (r, insts') \<Rightarrow> map_option (\<lambda>(rs, insts''). (r # rs, insts'')) (draws h ds insts'))"

text \<open>
  The same operations on a generator state alone, without a slot array: what the
  library returns for the state a slot holds.
\<close>

definition gen1 :: "draw \<Rightarrow> xoshiro \<Rightarrow> (drawn \<times> xoshiro) option" where
  "gen1 d st =
     (case d of
        NextU64 \<Rightarrow> (case int_u64 st of (r, st') \<Rightarrow> Some (U64 r, st'))
      | NextF64 \<Rightarrow> (case float_f64 st of (r, st') \<Rightarrow> Some (F64 r, st'))
      | NextU32Range min' max' \<Rightarrow>
          map_option (\<lambda>(r, st'). (U32 r, st')) (intRangeAtMost st min' max'))"

fun gens :: "draw list \<Rightarrow> xoshiro \<Rightarrow> (drawn list \<times> xoshiro) option" where
  "gens [] st = Some ([], st)"
| "gens (d # ds) st =
     (case gen1 d st of
        None \<Rightarrow> None
      | Some (r, st') \<Rightarrow> map_option (\<lambda>(rs, st''). (r # rs, st'')) (gens ds st'))"

text \<open>
  \<open>for (...) rngs.push(await Prng.createAsync(seed))\<close>: one call per seed of a list,
  each awaited before the next is issued, every instantiation succeeding.
\<close>

fun createAsync_all :: "int list \<Rightarrow> registry \<Rightarrow> (error + prng) list \<times> registry" where
  "createAsync_all [] reg = ([], reg)"
| "createAsync_all (seed # seeds) reg =
     (case Prng_createAsync seed True reg of (r, reg') \<Rightarrow>
        (case createAsync_all seeds reg' of (rs, reg'') \<Rightarrow> (r # rs, reg'')))"

text \<open>
  \<open>Promise.all(seeds.map((seed) => Prng.createAsync(seed)))\<close>: the calls are issued
  together. \<open>map\<close> calls the function once per seed without returning to the event
  loop, so every call runs its first step, in call order, before any suspended call
  is resumed. \<open>start_all\<close> pairs each seed with the outcome of its first step.
\<close>

fun start_all :: "int list \<Rightarrow> registry \<Rightarrow> (int \<times> prng option) list \<times> registry" where
  "start_all [] reg = ([], reg)"
| "start_all (seed # seeds) reg =
     (case createAsync_start seed reg of (r, reg') \<Rightarrow>
        (case start_all seeds reg' of (rs, reg'') \<Rightarrow> ((seed, r) # rs, reg'')))"

text \<open>The seeds of the calls left suspended.\<close>

definition pending :: "(int \<times> prng option) list \<Rightarrow> int list" where
  "pending rs = map fst (filter (\<lambda>x. snd x = None) rs)"

text \<open>
  The suspended calls are then resumed, here in call order with every instantiation
  succeeding. Each resumption pushes one module, so the number of modules at the end
  is the same in every order.
\<close>

fun resume_all :: "int list \<Rightarrow> registry \<Rightarrow> (error + prng) list \<times> registry" where
  "resume_all [] reg = ([], reg)"
| "resume_all (seed # seeds) reg =
     (case createAsync_resume seed True reg of (r, reg') \<Rightarrow>
        (case resume_all seeds reg' of (rs, reg'') \<Rightarrow> (r # rs, reg'')))"

text \<open>
  The results in call order: the handle of the first step where there is one, the
  next result of a resumption otherwise.
\<close>

fun settle :: "(int \<times> prng option) list \<Rightarrow> (error + prng) list \<Rightarrow> (error + prng) list" where
  "settle [] qs = []"
| "settle ((seed, Some p) # rs) qs = Inr p # settle rs qs"
| "settle ((seed, None) # rs) (q # qs) = q # settle rs qs"
| "settle ((seed, None) # rs) [] = []"

definition createAsync_together :: "int list \<Rightarrow> registry \<Rightarrow> (error + prng) list \<times> registry" where
  "createAsync_together seeds reg =
     (case start_all seeds reg of (rs, reg1) \<Rightarrow>
        (case resume_all (pending rs) reg1 of (qs, reg2) \<Rightarrow> (settle rs qs, reg2)))"

text \<open>The registry at startup: \<open>instances.push(await createWasmInstance())\<close>, one module.\<close>

definition initial_registry :: registry where
  "initial_registry = [fresh_instances]"

text \<open>A slot array with no \<open>null\<close> slot, and one of the right length.\<close>

definition full :: "instances \<Rightarrow> bool" where
  "full insts = (None \<notin> set insts)"

definition wf_instances :: "instances \<Rightarrow> bool" where
  "wf_instances insts = (length insts = MAX_INSTANCES)"

section \<open>Auxiliary lemmas\<close>

subsection \<open>The generator library\<close>

text \<open>
  The two shifts of \<open>rotl\<close> are the rotation of the word library, for every amount
  the generator uses.
\<close>

lemma rotl_word_rotl: "0 < k \<Longrightarrow> k < 64 \<Longrightarrow> rotl x k = word_rotl k x"
proof (rule bit_word_eqI)
  fix n :: nat
  assume n: "n < LENGTH(64)"
  assume k: "0 < k" "k < 64"
  show "bit (rotl x k) n = bit (word_rotl k x) n"
  proof (cases "k \<le> n")
    case True
    have "n + 64 - k = (n - k) + 64" using True k by linarith
    then have "(n + 64 - k) mod 64 = (n - k) mod 64" by (metis mod_add_self2)
    then have m: "(n + 64 - k mod 64) mod 64 = n - k" using n k by simp
    have "\<not> bit x (64 + n - k)"
    proof
      assume "bit x (64 + n - k)"
      then have "64 + n - k < LENGTH(64)" by (rule bit_imp_le_length)
      then show False using True by simp
    qed
    then have "bit (rotl x k) n = bit x (n - k)"
      using True n k by (simp add: rotl_def bit_or_iff bit_push_bit_iff bit_drop_bit_eq)
    also have "\<dots> = bit (word_rotl k x) n"
      using n by (simp add: bit_word_rotl_iff m)
    finally show ?thesis .
  next
    case False
    have m: "(n + 64 - k mod 64) mod 64 = n + (64 - k)" using False n k by simp
    have "bit (rotl x k) n = bit x (n + (64 - k))"
      using False n k
      by (simp add: rotl_def bit_or_iff bit_push_bit_iff bit_drop_bit_eq add.commute)
    also have "\<dots> = bit (word_rotl k x) n"
      using n by (simp add: bit_word_rotl_iff m)
    finally show ?thesis .
  qed
qed

text \<open>
The six updates of the state, composed.
\<close>

lemma xoshiro_next_closed:
  "xoshiro_next st =
     (rotl (s1 st * 5) 7 * 9,
      \<lparr>s0 = s0 st XOR (s3 st XOR s1 st),
       s1 = s1 st XOR (s2 st XOR s0 st),
       s2 = (s2 st XOR s0 st) XOR push_bit 17 (s1 st),
       s3 = rotl (s3 st XOR s1 st) 45\<rparr>)"
  by (simp add: xoshiro_next_def Let_def)

text \<open>
  The float is the word's high 53 bits over \<open>2^53\<close>: dropping 11 bits of a 64-bit
  word is the integer division by \<open>2^11\<close>.
\<close>

lemma float_value:
  "fst (float_f64 st) = of_int (uint (fst (xoshiro_next st)) div 2 ^ 11) / 2 ^ 53"
proof -
  obtain w st' where n: "xoshiro_next st = (w, st')" by (cases "xoshiro_next st")
  have "uint (drop_bit 11 w) = uint w div 2 ^ 11"
    by (simp add: drop_bit_eq_div uint_div)
  then have "(of_int (uint (drop_bit 11 w)) :: rat) = of_int (uint w div 2 ^ 11)"
    by (rule arg_cong)
  then show ?thesis unfolding float_f64_def n by (simp only: prod.case fst_conv)
qed

lemma float_bounds:
  "0 \<le> fst (float_f64 st) \<and> fst (float_f64 st) < 1"
proof -
  define x where "x = uint (fst (xoshiro_next st)) div 2 ^ 11"
  have "uint (fst (xoshiro_next st)) < 2 ^ 64"
    using uint_lt2p [of "fst (xoshiro_next st)"] by simp
  then have "x < 2 ^ 53" unfolding x_def by simp
  then have "(of_int x :: rat) < of_int (2 ^ 53)"
    by (rule of_int_less_iff [THEN iffD2])
  then have lt: "(of_int x :: rat) / 2 ^ 53 < 1" by simp
  have "0 \<le> x" unfolding x_def by (simp add: pos_imp_zdiv_nonneg_iff)
  then have ge: "0 \<le> (of_int x :: rat) / 2 ^ 53" by simp
  show ?thesis using lt ge unfolding float_value x_def by blast
qed

subsection \<open>Allocation in one module\<close>

text \<open>
  What the loop of \<open>create\<close> returns from index \<open>i\<close> on: the first empty slot at
  or after \<open>i\<close>, filled, or \<open>-1\<close> and the unchanged array.
\<close>

lemma create_from_spec:
  "(\<exists>k. i \<le> k \<and> k < MAX_INSTANCES \<and> insts ! k = None \<and>
        (\<forall>j. i \<le> j \<and> j < k \<longrightarrow> insts ! j \<noteq> None) \<and>
        create_from i s insts = (int k, insts[k := Some (xoshiro_init s)]))
   \<or> ((\<forall>j. i \<le> j \<and> j < MAX_INSTANCES \<longrightarrow> insts ! j \<noteq> None) \<and>
       create_from i s insts = (- 1, insts))"
proof (induction i s insts rule: create_from.induct)
  case (1 i s insts)
  show ?case
  proof (cases "i < MAX_INSTANCES")
    case False
    then show ?thesis by (subst create_from.simps) auto
  next
    case True
    show ?thesis
    proof (cases "insts ! i = None")
      case N: True
      have "create_from i s insts = (int i, insts[i := Some (xoshiro_init s)])"
        using True N by (subst create_from.simps) simp
      with True N show ?thesis by auto
    next
      case S: False
      have eq: "create_from i s insts = create_from (Suc i) s insts"
        using True S by (subst create_from.simps) auto
      from "1.IH"[OF True S] show ?thesis
      proof
        assume "\<exists>k. Suc i \<le> k \<and> k < MAX_INSTANCES \<and> insts ! k = None \<and>
        (\<forall>j. Suc i \<le> j \<and> j < k \<longrightarrow> insts ! j \<noteq> None) \<and>
        create_from (Suc i) s insts = (int k, insts[k := Some (xoshiro_init s)])"
        then obtain k where k: "Suc i \<le> k" "k < MAX_INSTANCES" "insts ! k = None"
          "\<forall>j. Suc i \<le> j \<and> j < k \<longrightarrow> insts ! j \<noteq> None"
          "create_from (Suc i) s insts = (int k, insts[k := Some (xoshiro_init s)])" by blast
        have "\<forall>j. i \<le> j \<and> j < k \<longrightarrow> insts ! j \<noteq> None"
        proof (intro allI impI)
          fix j assume "i \<le> j \<and> j < k"
          then have "j = i \<or> (Suc i \<le> j \<and> j < k)" by arith
          then show "insts ! j \<noteq> None" using k(4) S by blast
        qed
        with k eq show ?thesis by (intro disjI1 exI[of _ k]) auto
      next
        assume a: "(\<forall>j. Suc i \<le> j \<and> j < MAX_INSTANCES \<longrightarrow> insts ! j \<noteq> None) \<and>
          create_from (Suc i) s insts = (- 1, insts)"
        have "\<forall>j. i \<le> j \<and> j < MAX_INSTANCES \<longrightarrow> insts ! j \<noteq> None"
        proof (intro allI impI)
          fix j assume "i \<le> j \<and> j < MAX_INSTANCES"
          then have "j = i \<or> (Suc i \<le> j \<and> j < MAX_INSTANCES)" by arith
          then show "insts ! j \<noteq> None" using a S by blast
        qed
        with a eq show ?thesis by auto
      qed
    qed
  qed
qed

lemma create_spec:
  "(\<exists>k < MAX_INSTANCES. insts ! k = None \<and> (\<forall>j < k. insts ! j \<noteq> None) \<and>
        create s insts = (int k, insts[k := Some (xoshiro_init s)]))
   \<or> ((\<forall>j < MAX_INSTANCES. insts ! j \<noteq> None) \<and> create s insts = (- 1, insts))"
  using create_from_spec [of 0 insts s] unfolding create_def by simp

lemma full_nth: "wf_instances insts \<Longrightarrow> full insts = (\<forall>j < MAX_INSTANCES. insts ! j \<noteq> None)"
  unfolding full_def wf_instances_def by (metis in_set_conv_nth)

lemma create_full: "wf_instances insts \<Longrightarrow> full insts \<Longrightarrow> create s insts = (- 1, insts)"
  using create_spec [of insts s] by (auto simp: full_nth)

lemma create_not_full:
  assumes "wf_instances insts" "\<not> full insts"
  shows "\<exists>k < MAX_INSTANCES. insts ! k = None \<and> (\<forall>j < k. insts ! j \<noteq> None) \<and>
        create s insts = (int k, insts[k := Some (xoshiro_init s)])"
  using create_spec [of insts s] assms by (auto simp: full_nth)

lemma create_not_full_nonneg: "wf_instances insts \<Longrightarrow> \<not> full insts \<Longrightarrow> 0 \<le> fst (create s insts)"
  using create_not_full [of insts s] by auto

lemma create_wf: "wf_instances insts \<Longrightarrow> wf_instances (snd (create s insts))"
  using create_spec [of insts s] by (auto simp: wf_instances_def)

lemma create_allocates:
  assumes "wf_instances p" "create s p = (h, q)" "0 \<le> h"
  shows "h < int MAX_INSTANCES \<and> wf_instances q \<and> p ! nat h = None \<and>
         q ! nat h = Some (xoshiro_init s)"
  using create_spec [of p s] assms by (auto simp: wf_instances_def)

text \<open>
An array filled up to a position is filled at that position next.
\<close>

lemma create_prefix:
  assumes "length xs < MAX_INSTANCES" "None \<notin> set xs"
  shows "create s (xs @ replicate (MAX_INSTANCES - length xs) None) =
           (int (length xs), xs @ Some (xoshiro_init s) # replicate (MAX_INSTANCES - Suc (length xs)) None)"
proof -
  let ?p = "xs @ replicate (MAX_INSTANCES - length xs) None"
  have at: "?p ! length xs = None" using assms(1) by (simp add: nth_append)
  have below: "\<And>j. j < length xs \<Longrightarrow> ?p ! j \<noteq> None"
    using assms(2) by (auto simp: nth_append in_set_conv_nth) 
  have upd: "?p[length xs := Some (xoshiro_init s)] =
          xs @ Some (xoshiro_init s) # replicate (MAX_INSTANCES - Suc (length xs)) None"
  proof -
    obtain n where n: "MAX_INSTANCES - length xs = Suc n" using assms(1)
      by (metis Suc_diff_Suc)
    then have "MAX_INSTANCES - Suc (length xs) = n" by simp
    with n show ?thesis by (simp add: list_update_append)
  qed
  from create_spec [of ?p s] show ?thesis
  proof
    assume "\<exists>k<MAX_INSTANCES. ?p ! k = None \<and> (\<forall>j<k. ?p ! j \<noteq> None) \<and>
        create s ?p = (int k, ?p[k := Some (xoshiro_init s)])"
    then obtain k where k: "?p ! k = None" "\<forall>j<k. ?p ! j \<noteq> None"
      "create s ?p = (int k, ?p[k := Some (xoshiro_init s)])" by blast
    have "\<not> k < length xs" using below k(1) by blast
    moreover have "\<not> length xs < k" using at k(2) by blast
    ultimately have "k = length xs" by simp
    with k(3) upd show ?thesis by simp
  next
    assume "(\<forall>j<MAX_INSTANCES. ?p ! j \<noteq> None) \<and> create s ?p = (- 1, ?p)"
    with at assms(1) show ?thesis by blast
  qed
qed

lemma fresh_instances_Cons: "fresh_instances = None # replicate 255 None"
proof -
  have "replicate 256 None = (None :: xoshiro option) # replicate 255 None"
    by (simp add: replicate_Suc [symmetric] del: replicate_Suc)
  then show ?thesis by (simp add: fresh_instances_def MAX_INSTANCES_def)
qed

lemma fresh_instances_update0: "fresh_instances[0 := v] = v # replicate 255 None"
  by (simp add: fresh_instances_Cons)

lemma create_fresh:
  "create s fresh_instances = (0, Some (xoshiro_init s) # replicate (MAX_INSTANCES - 1) None)"
  using create_prefix [of "[]" s] by (simp add: fresh_instances_def MAX_INSTANCES_def)

subsection \<open>The scan over the registry\<close>

lemma scan_all_full:
  "\<forall>p \<in> set reg. wf_instances p \<and> full p \<Longrightarrow> scan_instances s i reg = (None, reg)"
  by (induction reg arbitrary: i) (auto simp: create_full)

lemma scan_first_free:
  assumes "\<forall>p \<in> set pre. wf_instances p \<and> full p" "wf_instances p" "\<not> full p"
  shows "scan_instances s i (pre @ p # post) =
           (Some \<lparr>instance_ix = i + length pre, handle = fst (create s p)\<rparr>,
            pre @ snd (create s p) # post)"
  using assms
proof (induction pre arbitrary: i)
  case Nil
  then show ?case using create_not_full_nonneg [of p s] by (cases "create s p") auto
next
  case (Cons a pre)
  then show ?case by (simp add: create_full)
qed

lemma scan_first_free_nth:
  assumes "\<forall>p \<in> set reg. wf_instances p" "k < length reg" "\<not> full (reg ! k)" "\<forall>j < k. full (reg ! j)"
  shows "scan_instances s 0 reg =
           (Some \<lparr>instance_ix = k, handle = fst (create s (reg ! k))\<rparr>,
            reg[k := snd (create s (reg ! k))])"
proof -
  have reg: "reg = take k reg @ reg ! k # drop (Suc k) reg"
    using assms(2) by (simp add: id_take_nth_drop)
  have pre: "\<forall>p \<in> set (take k reg). wf_instances p \<and> full p"
    using assms(1,2,4) by (auto simp: in_set_conv_nth dest: in_set_takeD)
  have "scan_instances s 0 (take k reg @ reg ! k # drop (Suc k) reg) =
           (Some \<lparr>instance_ix = 0 + length (take k reg), handle = fst (create s (reg ! k))\<rparr>,
            take k reg @ snd (create s (reg ! k)) # drop (Suc k) reg)"
    using pre assms by (intro scan_first_free) auto
  moreover have "take k reg @ snd (create s (reg ! k)) # drop (Suc k) reg = reg[k := snd (create s (reg ! k))]"
    using assms(2) by (simp add: upd_conv_take_nth_drop)
  ultimately show ?thesis using reg assms(2) by simp
qed

lemma scan_result:
  assumes "\<forall>m \<in> set reg. wf_instances m" "scan_instances s i reg = (Some q, reg')"
  shows "i \<le> instance_ix q \<and> instance_ix q < i + length reg \<and> length reg' = length reg \<and>
         (\<forall>m \<in> set reg'. wf_instances m) \<and>
         0 \<le> handle q \<and> handle q < int MAX_INSTANCES \<and>
         reg ! (instance_ix q - i) ! nat (handle q) = None \<and>
         reg' ! (instance_ix q - i) ! nat (handle q) = Some (xoshiro_init s)"
  using assms
proof (induction reg arbitrary: i reg')
  case Nil
  then show ?case by simp
next
  case (Cons m reg)
  obtain h m' where c: "create s m = (h, m')" by (cases "create s m")
  have wm: "wf_instances m" using Cons.prems(1) by simp
  show ?case
  proof (cases "0 \<le> h")
    case True
    then have "q = \<lparr>instance_ix = i, handle = h\<rparr>" "reg' = m' # reg"
      using Cons.prems(2) c by simp_all
    then show ?thesis
      using create_allocates [OF wm c True] Cons.prems(1) True by simp
  next
    case False
    obtain r rest where sc: "scan_instances s (Suc i) reg = (r, rest)"
      by (cases "scan_instances s (Suc i) reg")
    have r: "r = Some q" "reg' = m' # rest"
      using Cons.prems(2) c False sc by simp_all
    have wm': "wf_instances m'" using create_wf [OF wm, of s] c by simp
    have ih: "Suc i \<le> instance_ix q \<and> instance_ix q < Suc i + length reg \<and>
         length rest = length reg \<and> (\<forall>m \<in> set rest. wf_instances m) \<and>
         0 \<le> handle q \<and> handle q < int MAX_INSTANCES \<and>
         reg ! (instance_ix q - Suc i) ! nat (handle q) = None \<and>
         rest ! (instance_ix q - Suc i) ! nat (handle q) = Some (xoshiro_init s)"
      using Cons.prems(1) sc r(1) by (intro Cons.IH) auto
    then have "instance_ix q - i = Suc (instance_ix q - Suc i)" by arith
    then show ?thesis using ih r(2) wm' by simp
  qed
qed

lemma Prng_create_result:
  assumes "\<forall>m \<in> set reg. wf_instances m" "Prng_create seed reg = (Inr q, reg2)"
  shows "instance_ix q < length reg \<and> length reg2 = length reg \<and>
         (\<forall>m \<in> set reg2. wf_instances m) \<and>
         0 \<le> handle q \<and> handle q < int MAX_INSTANCES \<and>
         reg ! instance_ix q ! nat (handle q) = None \<and>
         reg2 ! instance_ix q ! nat (handle q) = Some (xoshiro_init (seed_u64 seed))"
proof -
  have "scan_instances (seed_u64 seed) 0 reg = (Some q, reg2)"
    using assms(2) by (auto simp: Prng_create_def split: prod.splits option.splits)
  from scan_result [OF assms(1) this] show ?thesis by simp
qed

lemma Prng_createAsync_all_full:
  assumes "\<forall>p \<in> set reg. wf_instances p \<and> full p"
  shows "Prng_createAsync seed ok reg =
           (if ok then (Inr \<lparr>instance_ix = length reg, handle = 0\<rparr>,
                        reg @ [Some (xoshiro_init (seed_u64 seed)) # replicate (MAX_INSTANCES - 1) None])
            else (Inl InstantiationFailure, reg))"
  by (simp add: Prng_createAsync_def createAsync_start_def createAsync_resume_def
      scan_all_full [OF assms] create_fresh)

subsection \<open>Filling a fresh registry\<close>

lemma createAsync_all_append:
  "createAsync_all (a @ b) reg =
     (case createAsync_all a reg of (r1, reg1) \<Rightarrow>
        (case createAsync_all b reg1 of (r2, reg2) \<Rightarrow> (r1 @ r2, reg2)))"
  by (induction a arbitrary: reg) (auto split: prod.splits)

lemma createAsync_all_fill:
  assumes "\<forall>p \<in> set fulls. wf_instances p \<and> full p" "None \<notin> set xs"
    "length xs + length ss \<le> MAX_INSTANCES"
  shows "createAsync_all ss (fulls @ [xs @ replicate (MAX_INSTANCES - length xs) None]) =
           (map (\<lambda>k. Inr \<lparr>instance_ix = length fulls, handle = int k\<rparr>)
              [length xs ..< length xs + length ss],
            fulls @ [xs @ map (\<lambda>s. Some (xoshiro_init (seed_u64 s))) ss @
                     replicate (MAX_INSTANCES - (length xs + length ss)) None])"
  using assms(2,3)
proof (induction ss arbitrary: xs)
  case Nil
  then show ?case by simp
next
  case (Cons a ss)
  let ?p = "xs @ replicate (MAX_INSTANCES - length xs) None"
  let ?v = "Some (xoshiro_init (seed_u64 a))"
  have lt: "length xs < MAX_INSTANCES" using Cons.prems(2) by simp
  have wfp: "wf_instances ?p" using lt by (simp add: wf_instances_def)
  have nf: "\<not> full ?p" using lt by (simp add: full_def)
  have cr: "create (seed_u64 a) ?p =
              (int (length xs), xs @ ?v # replicate (MAX_INSTANCES - Suc (length xs)) None)"
    using lt Cons.prems(1) by (rule create_prefix)
  have sc: "scan_instances (seed_u64 a) 0 (fulls @ ?p # []) =
           (Some \<lparr>instance_ix = 0 + length fulls, handle = fst (create (seed_u64 a) ?p)\<rparr>,
            fulls @ snd (create (seed_u64 a) ?p) # [])"
    using assms(1) wfp nf by (rule scan_first_free)
  have step: "Prng_createAsync a True (fulls @ [?p]) =
          (Inr \<lparr>instance_ix = length fulls, handle = int (length xs)\<rparr>,
           fulls @ [(xs @ [?v]) @ replicate (MAX_INSTANCES - length (xs @ [?v])) None])"
    using sc by (simp add: Prng_createAsync_def createAsync_start_def cr)
  have ih: "createAsync_all ss (fulls @ [(xs @ [?v]) @ replicate (MAX_INSTANCES - length (xs @ [?v])) None]) =
           (map (\<lambda>k. Inr \<lparr>instance_ix = length fulls, handle = int k\<rparr>)
              [length (xs @ [?v]) ..< length (xs @ [?v]) + length ss],
            fulls @ [(xs @ [?v]) @ map (\<lambda>s. Some (xoshiro_init (seed_u64 s))) ss @
                     replicate (MAX_INSTANCES - (length (xs @ [?v]) + length ss)) None])"
    using Cons.prems by (intro Cons.IH) auto
  have up: "[length xs ..< length xs + length (a # ss)] =
            length xs # [length (xs @ [?v]) ..< length (xs @ [?v]) + length ss]"
  proof -
    have "length xs < length xs + length (a # ss)" by simp
    from upt_conv_Cons [OF this] show ?thesis by simp
  qed
  show ?case
    unfolding createAsync_all.simps step up using ih by simp
qed

lemma createAsync_all_two_modules:
  assumes "length seeds = 2 * MAX_INSTANCES"
  shows "createAsync_all seeds initial_registry =
     (map (\<lambda>k. Inr \<lparr>instance_ix = 0, handle = int k\<rparr>) [0..<MAX_INSTANCES] @
      map (\<lambda>k. Inr \<lparr>instance_ix = 1, handle = int k\<rparr>) [0..<MAX_INSTANCES],
      [map (\<lambda>s. Some (xoshiro_init (seed_u64 s))) (take MAX_INSTANCES seeds),
       map (\<lambda>s. Some (xoshiro_init (seed_u64 s))) (drop MAX_INSTANCES seeds)])"
proof -
  let ?f = "\<lambda>s. Some (xoshiro_init (seed_u64 s))"
  let ?M = MAX_INSTANCES
  define a where "a = take ?M seeds"
  define b where "b = seeds ! ?M"
  define c where "c = drop (Suc ?M) seeds"
  have M: "0 < ?M" by (simp add: MAX_INSTANCES_def)
  have la: "length a = ?M" and lc: "length c = ?M - 1"
    using assms by (simp_all add: a_def c_def)
  have seeds: "seeds = a @ b # c"
    unfolding a_def b_def c_def using assms M by (simp add: id_take_nth_drop)
  have dr: "drop ?M seeds = b # c"
    using la seeds by simp
  have first: "createAsync_all a initial_registry =
      (map (\<lambda>k. Inr \<lparr>instance_ix = 0, handle = int k\<rparr>) [0..<?M], [map ?f a])"
    using createAsync_all_fill [of "[]" "[]" a] la
    by (simp add: initial_registry_def fresh_instances_def)
  have fa: "\<forall>p \<in> set [map ?f a]. wf_instances p \<and> full p"
    using la by (auto simp: wf_instances_def full_def)
  have grow: "Prng_createAsync b True [map ?f a] =
      (Inr \<lparr>instance_ix = 1, handle = 0\<rparr>, [map ?f a] @ [[?f b] @ replicate (?M - length [?f b]) None])"
    using Prng_createAsync_all_full [OF fa, of b True] by simp
  have rest: "createAsync_all c ([map ?f a] @ [[?f b] @ replicate (?M - length [?f b]) None]) =
      (map (\<lambda>k. Inr \<lparr>instance_ix = length [map ?f a], handle = int k\<rparr>)
              [length [?f b] ..< length [?f b] + length c],
       [map ?f a] @ [[?f b] @ map ?f c @ replicate (?M - (length [?f b] + length c)) None])"
    using fa lc M by (intro createAsync_all_fill) auto
  have second: "createAsync_all (b # c) [map ?f a] =
      (map (\<lambda>k. Inr \<lparr>instance_ix = 1, handle = int k\<rparr>) [0..<?M], [map ?f a, map ?f (b # c)])"
  proof -
    have "[0..<?M] = 0 # [Suc 0..<?M]" using M by (rule upt_conv_Cons)
    moreover have "Suc (length c) = ?M" using lc M by simp
    ultimately show ?thesis
      unfolding createAsync_all.simps grow using rest by simp
  qed
  show ?thesis
    unfolding dr unfolding a_def [symmetric]
    by (subst seeds) (simp add: createAsync_all_append first second del: createAsync_all.simps)
qed

subsection \<open>Calls awaited one by one\<close>

text \<open>
  A call awaited with no other call in flight returns what \<open>Prng.create\<close> returns
  whenever that succeeds, so its scan is the same first fit. With every module full it
  pushes one fresh module and allocates the seed at handle 0 there, or fails with
  the registry unchanged when the instantiation fails. From the initial registry,
  512 calls each awaited before the next end with exactly two modules, each holding
  256 generators.
\<close>

lemma createAsync_awaited:
  assumes "\<forall>p \<in> set reg. wf_instances p"
  shows "(Prng_create seed reg = (Inr p, reg') \<longrightarrow> Prng_createAsync seed ok reg = (Inr p, reg'))
       \<and> (k < length reg \<and> \<not> full (reg ! k) \<and> (\<forall>j < k. full (reg ! j)) \<longrightarrow>
            Prng_createAsync seed ok reg =
              (Inr \<lparr>instance_ix = k, handle = fst (create (seed_u64 seed) (reg ! k))\<rparr>,
               reg[k := snd (create (seed_u64 seed) (reg ! k))]))
       \<and> ((\<forall>p \<in> set reg. full p) \<longrightarrow>
            Prng_createAsync seed True reg =
              (Inr \<lparr>instance_ix = length reg, handle = 0\<rparr>,
               reg @ [fresh_instances[0 := Some (xoshiro_init (seed_u64 seed))]]) \<and>
            Prng_createAsync seed False reg = (Inl InstantiationFailure, reg))
       \<and> (length seeds = 512 \<longrightarrow>
            createAsync_all seeds initial_registry =
              (map (\<lambda>i. Inr \<lparr>instance_ix = 0, handle = int i\<rparr>) [0..<256] @
               map (\<lambda>i. Inr \<lparr>instance_ix = 1, handle = int i\<rparr>) [0..<256],
               [map (\<lambda>s. Some (xoshiro_init (seed_u64 s))) (take 256 seeds),
                map (\<lambda>s. Some (xoshiro_init (seed_u64 s))) (drop 256 seeds)]))"
proof (intro conjI impI)
  assume "Prng_create seed reg = (Inr p, reg')"
  then show "Prng_createAsync seed ok reg = (Inr p, reg')"
    by (auto simp: Prng_create_def Prng_createAsync_def createAsync_start_def
        split: prod.splits option.splits)
next
  assume k: "k < length reg \<and> \<not> full (reg ! k) \<and> (\<forall>j < k. full (reg ! j))"
  then have k1: "k < length reg" and k2: "\<not> full (reg ! k)"
    and k3: "\<forall>j < k. full (reg ! j)" by auto
  show "Prng_createAsync seed ok reg =
              (Inr \<lparr>instance_ix = k, handle = fst (create (seed_u64 seed) (reg ! k))\<rparr>,
               reg[k := snd (create (seed_u64 seed) (reg ! k))])"
    by (simp add: Prng_createAsync_def createAsync_start_def
        scan_first_free_nth [OF assms k1 k2 k3])
next
  assume f: "\<forall>p \<in> set reg. full p"
  have u: "fresh_instances[0 := Some (xoshiro_init (seed_u64 seed))] =
           Some (xoshiro_init (seed_u64 seed)) # replicate (MAX_INSTANCES - 1) None"
    by (simp add: fresh_instances_update0 MAX_INSTANCES_def)
  from f assms have a: "\<forall>p \<in> set reg. wf_instances p \<and> full p" by blast
  show "Prng_createAsync seed True reg =
              (Inr \<lparr>instance_ix = length reg, handle = 0\<rparr>,
               reg @ [fresh_instances[0 := Some (xoshiro_init (seed_u64 seed))]])"
    using Prng_createAsync_all_full [OF a, of seed True] by (simp add: u)
  show "Prng_createAsync seed False reg = (Inl InstantiationFailure, reg)"
    using Prng_createAsync_all_full [OF a, of seed False] by simp
next
  assume "length seeds = 512"
  then have "length seeds = 2 * MAX_INSTANCES" by (simp add: MAX_INSTANCES_def)
  from createAsync_all_two_modules [OF this]
  show "createAsync_all seeds initial_registry =
              (map (\<lambda>i. Inr \<lparr>instance_ix = 0, handle = int i\<rparr>) [0..<256] @
               map (\<lambda>i. Inr \<lparr>instance_ix = 1, handle = int i\<rparr>) [0..<256],
               [map (\<lambda>s. Some (xoshiro_init (seed_u64 s))) (take 256 seeds),
                map (\<lambda>s. Some (xoshiro_init (seed_u64 s))) (drop 256 seeds)])"
    by (simp add: MAX_INSTANCES_def)
qed

lemma createAsync_awaited_example:
  "wf_instances (replicate 256 (Some \<lparr>s0 = 1, s1 = 2, s2 = 3, s3 = 4\<rparr>)) \<and>
   full (replicate 256 (Some \<lparr>s0 = 1, s1 = 2, s2 = 3, s3 = 4\<rparr>)) \<and>
   wf_instances fresh_instances \<and>
   Prng_create 5 [replicate 256 (Some \<lparr>s0 = 1, s1 = 2, s2 = 3, s3 = 4\<rparr>), fresh_instances] =
     (Inr \<lparr>instance_ix = 1, handle = 0\<rparr>,
      [replicate 256 (Some \<lparr>s0 = 1, s1 = 2, s2 = 3, s3 = 4\<rparr>),
       Some (xoshiro_init 5) # replicate 255 None]) \<and>
   Prng_createAsync 5 False
       [replicate 256 (Some \<lparr>s0 = 1, s1 = 2, s2 = 3, s3 = 4\<rparr>), fresh_instances] =
     (Inr \<lparr>instance_ix = 1, handle = 0\<rparr>,
      [replicate 256 (Some \<lparr>s0 = 1, s1 = 2, s2 = 3, s3 = 4\<rparr>),
       Some (xoshiro_init 5) # replicate 255 None]) \<and>
   Prng_createAsync 5 True [replicate 256 (Some \<lparr>s0 = 1, s1 = 2, s2 = 3, s3 = 4\<rparr>)] =
     (Inr \<lparr>instance_ix = 1, handle = 0\<rparr>,
      [replicate 256 (Some \<lparr>s0 = 1, s1 = 2, s2 = 3, s3 = 4\<rparr>),
       Some (xoshiro_init 5) # replicate 255 None]) \<and>
   Prng_createAsync 5 False [replicate 256 (Some \<lparr>s0 = 1, s1 = 2, s2 = 3, s3 = 4\<rparr>)] =
     (Inl InstantiationFailure, [replicate 256 (Some \<lparr>s0 = 1, s1 = 2, s2 = 3, s3 = 4\<rparr>)]) \<and>
   length (map int [0..<512]) = 512 \<and>
   createAsync_all (map int [0..<512]) initial_registry =
     (map (\<lambda>i. Inr \<lparr>instance_ix = 0, handle = int i\<rparr>) [0..<256] @
      map (\<lambda>i. Inr \<lparr>instance_ix = 1, handle = int i\<rparr>) [0..<256],
      [map (\<lambda>s. Some (xoshiro_init (seed_u64 s))) (map int [0..<256]),
       map (\<lambda>s. Some (xoshiro_init (seed_u64 s))) (map int [256..<512])])"
proof -
  let ?f = "replicate 256 (Some \<lparr>s0 = 1, s1 = 2, s2 = 3, s3 = 4\<rparr>)"
  let ?n = "Some (xoshiro_init 5) # replicate 255 None"
  have a: "wf_instances ?f" by (simp add: wf_instances_def MAX_INSTANCES_def)
  have b: "wf_instances fresh_instances" by (simp add: wf_instances_def fresh_instances_def)
  have c: "full ?f" by (simp add: full_def)
  have d: "\<not> full fresh_instances"
    by (simp add: full_def fresh_instances_def MAX_INSTANCES_def)
  have s: "seed_u64 5 = 5" by (simp add: seed_u64_def)
  have u: "fresh_instances[0 := Some (xoshiro_init 5)] = ?n"
    by (rule fresh_instances_update0)
  have w2: "\<forall>p \<in> set [?f, fresh_instances]. wf_instances p" using a b by simp
  have w1: "\<forall>p \<in> set [?f]. wf_instances p" using a by simp
  have 0: "Prng_create 5 [?f, fresh_instances] = (Inr \<lparr>instance_ix = 1, handle = 0\<rparr>, [?f, ?n])"
    using scan_first_free_nth [OF w2, of 1 5] c d
    by (simp add: Prng_create_def s create_fresh MAX_INSTANCES_def)
  have 1: "Prng_createAsync 5 False [?f, fresh_instances] =
             (Inr \<lparr>instance_ix = 1, handle = 0\<rparr>, [?f, ?n])"
    using createAsync_awaited
            [OF w2, of 5 "\<lparr>instance_ix = 1, handle = 0\<rparr>" "[?f, ?n]" False] 0
    by blast
  have 2: "Prng_createAsync 5 True [?f] = (Inr \<lparr>instance_ix = 1, handle = 0\<rparr>, [?f, ?n])"
    using createAsync_awaited [OF w1, of 5] c by (simp add: s u)
  have 3: "Prng_createAsync 5 False [?f] = (Inl InstantiationFailure, [?f])"
    using createAsync_awaited [OF w1, of 5] c by simp
  have l: "length (map int [0..<512]) = 512" by simp
  have t: "take 256 (map int [0..<512]) = map int [0..<256]"
          "drop 256 (map int [0..<512]) = map int [256..<512]"
    by (simp_all add: take_map drop_map del: upt_Suc)
  have 4: "createAsync_all (map int [0..<512]) initial_registry =
     (map (\<lambda>i. Inr \<lparr>instance_ix = 0, handle = int i\<rparr>) [0..<256] @
      map (\<lambda>i. Inr \<lparr>instance_ix = 1, handle = int i\<rparr>) [0..<256],
      [map (\<lambda>s. Some (xoshiro_init (seed_u64 s))) (map int [0..<256]),
       map (\<lambda>s. Some (xoshiro_init (seed_u64 s))) (map int [256..<512])])"
    using createAsync_awaited [OF w1, of _ _ _ _ _ "map int [0..<512]"] l
    unfolding t by blast
  from a c b 0 1 2 3 l 4 show ?thesis by blast
qed

subsection \<open>Calls issued together\<close>

text \<open>
  Calls issued together all scan before any of them pushes: those that find a slot
  take it, the others are suspended and the registry is as the scans left it. Each
  resumption then pushes a module of its own, whatever is free by then.
\<close>

lemma start_all_append:
  "start_all (a @ b) reg =
     (case start_all a reg of (r1, reg1) \<Rightarrow>
        (case start_all b reg1 of (r2, reg2) \<Rightarrow> (r1 @ r2, reg2)))"
  by (induction a arbitrary: reg) (auto split: prod.splits)

lemma start_all_fill:
  assumes "\<forall>p \<in> set fulls. wf_instances p \<and> full p" "None \<notin> set xs"
    "length xs + length ss \<le> MAX_INSTANCES"
  shows "start_all ss (fulls @ [xs @ replicate (MAX_INSTANCES - length xs) None]) =
           (zip ss (map (\<lambda>k. Some \<lparr>instance_ix = length fulls, handle = int k\<rparr>)
                      [length xs ..< length xs + length ss]),
            fulls @ [xs @ map (\<lambda>s. Some (xoshiro_init (seed_u64 s))) ss @
                     replicate (MAX_INSTANCES - (length xs + length ss)) None])"
  using assms(2,3)
proof (induction ss arbitrary: xs)
  case Nil
  then show ?case by simp
next
  case (Cons a ss)
  let ?p = "xs @ replicate (MAX_INSTANCES - length xs) None"
  let ?v = "Some (xoshiro_init (seed_u64 a))"
  have lt: "length xs < MAX_INSTANCES" using Cons.prems(2) by simp
  have wfp: "wf_instances ?p" using lt by (simp add: wf_instances_def)
  have nf: "\<not> full ?p" using lt by (simp add: full_def)
  have cr: "create (seed_u64 a) ?p =
              (int (length xs), xs @ ?v # replicate (MAX_INSTANCES - Suc (length xs)) None)"
    using lt Cons.prems(1) by (rule create_prefix)
  have sc: "scan_instances (seed_u64 a) 0 (fulls @ ?p # []) =
           (Some \<lparr>instance_ix = 0 + length fulls, handle = fst (create (seed_u64 a) ?p)\<rparr>,
            fulls @ snd (create (seed_u64 a) ?p) # [])"
    using assms(1) wfp nf by (rule scan_first_free)
  have step: "createAsync_start a (fulls @ [?p]) =
          (Some \<lparr>instance_ix = length fulls, handle = int (length xs)\<rparr>,
           fulls @ [(xs @ [?v]) @ replicate (MAX_INSTANCES - length (xs @ [?v])) None])"
    using sc by (simp add: createAsync_start_def cr)
  have ih: "start_all ss (fulls @ [(xs @ [?v]) @ replicate (MAX_INSTANCES - length (xs @ [?v])) None]) =
           (zip ss (map (\<lambda>k. Some \<lparr>instance_ix = length fulls, handle = int k\<rparr>)
              [length (xs @ [?v]) ..< length (xs @ [?v]) + length ss]),
            fulls @ [(xs @ [?v]) @ map (\<lambda>s. Some (xoshiro_init (seed_u64 s))) ss @
                     replicate (MAX_INSTANCES - (length (xs @ [?v]) + length ss)) None])"
    using Cons.prems by (intro Cons.IH) auto
  have up: "[length xs ..< length xs + length (a # ss)] =
            length xs # [length (xs @ [?v]) ..< length (xs @ [?v]) + length ss]"
  proof -
    have "length xs < length xs + length (a # ss)" by simp
    from upt_conv_Cons [OF this] show ?thesis by simp
  qed
  show ?case
    unfolding start_all.simps step up using ih by simp
qed

lemma start_all_full:
  assumes "\<forall>p \<in> set reg. wf_instances p \<and> full p"
  shows "start_all ss reg = (map (\<lambda>s. (s, None)) ss, reg)"
  by (induction ss) (simp_all add: createAsync_start_def scan_all_full [OF assms])

lemma resume_all_pushes:
  "resume_all ss reg =
     (map (\<lambda>i. Inr \<lparr>instance_ix = i, handle = 0\<rparr>) [length reg ..< length reg + length ss],
      reg @ map (\<lambda>s. Some (xoshiro_init (seed_u64 s)) # replicate 255 None) ss)"
proof (induction ss arbitrary: reg)
  case Nil
  then show ?case by simp
next
  case (Cons a ss)
  have step: "createAsync_resume a True reg =
      (Inr \<lparr>instance_ix = length reg, handle = 0\<rparr>,
       reg @ [Some (xoshiro_init (seed_u64 a)) # replicate 255 None])"
    by (simp add: createAsync_resume_def create_fresh MAX_INSTANCES_def)
  have up: "[length reg ..< length reg + length (a # ss)] =
            length reg # [Suc (length reg) ..< Suc (length reg) + length ss]"
  proof -
    have "length reg < length reg + length (a # ss)" by simp
    from upt_conv_Cons [OF this] show ?thesis by simp
  qed
  show ?case
    unfolding resume_all.simps step up
    using Cons.IH [of "reg @ [Some (xoshiro_init (seed_u64 a)) # replicate 255 None]"] by simp
qed

lemma pending_append: "pending (a @ b) = pending a @ pending b"
  by (simp add: pending_def)

lemma pending_started: "pending (zip ss (map (\<lambda>k. Some (g k)) ks)) = []"
  by (auto simp: pending_def filter_empty_conv dest!: set_zip_rightD)

lemma pending_suspended: "pending (map (\<lambda>s. (s, None)) ss) = ss"
  by (induction ss) (simp_all add: pending_def)

lemma settle_started:
  "length ss = length ks \<Longrightarrow>
   settle (zip ss (map (\<lambda>k. Some (g k)) ks) @ rs) qs = map (\<lambda>k. Inr (g k)) ks @ settle rs qs"
  by (induction ss ks rule: list_induct2) simp_all

lemma settle_suspended:
  "length qs = length ss \<Longrightarrow> settle (map (\<lambda>s. (s, None)) ss) qs = qs"
  by (induction qs ss rule: list_induct2) simp_all

lemma createAsync_together_one_module_each:
  assumes "length seeds = 2 * MAX_INSTANCES"
  shows "createAsync_together seeds initial_registry =
     (map (\<lambda>k. Inr \<lparr>instance_ix = 0, handle = int k\<rparr>) [0..<MAX_INSTANCES] @
      map (\<lambda>i. Inr \<lparr>instance_ix = i, handle = 0\<rparr>) [1..<Suc MAX_INSTANCES],
      map (\<lambda>s. Some (xoshiro_init (seed_u64 s))) (take MAX_INSTANCES seeds) #
      map (\<lambda>s. Some (xoshiro_init (seed_u64 s)) # replicate 255 None)
        (drop MAX_INSTANCES seeds))"
proof -
  let ?f = "\<lambda>s. Some (xoshiro_init (seed_u64 s))"
  let ?M = MAX_INSTANCES
  let ?g = "\<lambda>k. \<lparr>instance_ix = 0, handle = int k\<rparr>"
  define a where "a = take ?M seeds"
  define b where "b = drop ?M seeds"
  have la: "length a = ?M" and lb: "length b = ?M"
    using assms by (simp_all add: a_def b_def)
  have seeds: "seeds = a @ b" by (simp add: a_def b_def)
  have first: "start_all a initial_registry =
      (zip a (map (\<lambda>k. Some (?g k)) [0..<?M]), [map ?f a])"
    using start_all_fill [of "[]" "[]" a] la
    by (simp add: initial_registry_def fresh_instances_def)
  have fa: "\<forall>p \<in> set [map ?f a]. wf_instances p \<and> full p"
    using la by (auto simp: wf_instances_def full_def)
  have second: "start_all b [map ?f a] = (map (\<lambda>s. (s, None)) b, [map ?f a])"
    using fa by (rule start_all_full)
  have st: "start_all seeds initial_registry =
      (zip a (map (\<lambda>k. Some (?g k)) [0..<?M]) @ map (\<lambda>s. (s, None)) b, [map ?f a])"
    unfolding seeds by (simp add: start_all_append first second)
  have pe: "pending (zip a (map (\<lambda>k. Some (?g k)) [0..<?M]) @ map (\<lambda>s. (s, None)) b) = b"
    by (simp add: pending_append pending_started pending_suspended)
  have re: "resume_all b [map ?f a] =
     (map (\<lambda>i. Inr \<lparr>instance_ix = i, handle = 0\<rparr>) [1 ..< Suc ?M],
      [map ?f a] @ map (\<lambda>s. ?f s # replicate 255 None) b)"
    using resume_all_pushes [of b "[map ?f a]"] lb by simp
  have se: "settle (zip a (map (\<lambda>k. Some (?g k)) [0..<?M]) @ map (\<lambda>s. (s, None)) b)
              (map (\<lambda>i. Inr \<lparr>instance_ix = i, handle = 0\<rparr>) [1 ..< Suc ?M]) =
            map (\<lambda>k. Inr (?g k)) [0..<?M] @
            map (\<lambda>i. Inr \<lparr>instance_ix = i, handle = 0\<rparr>) [1 ..< Suc ?M]"
  proof -
    let ?qs = "map (\<lambda>i. Inr \<lparr>instance_ix = i, handle = 0\<rparr>) [1 ..< Suc ?M]"
    have "length a = length [0..<?M]" using la by simp
    then have A: "settle (zip a (map (\<lambda>k. Some (?g k)) [0..<?M]) @ map (\<lambda>s. (s, None)) b) ?qs =
        map (\<lambda>k. Inr (?g k)) [0..<?M] @ settle (map (\<lambda>s. (s, None)) b) ?qs"
      by (rule settle_started)
    have "length ?qs = length b" using lb by simp
    then have B: "settle (map (\<lambda>s. (s, None)) b) ?qs = ?qs" by (rule settle_suspended)
    show ?thesis unfolding A B ..
  qed
  show ?thesis
    unfolding createAsync_together_def st a_def [symmetric] b_def [symmetric]
      prod.case pe re se by simp
qed

subsection \<open>Draws on an occupied slot\<close>

text \<open>
  A draw on an occupied slot returns what the library returns for the state stored
  there, and writes the library's new state back to that slot only.
\<close>

lemma draw1_occupied:
  assumes "0 \<le> h" "h < int MAX_INSTANCES" "insts ! nat h = Some st"
  shows "draw1 h d insts = map_option (\<lambda>(r, st'). (r, insts[nat h := Some st'])) (gen1 d st)"
  using assms
  by (cases d)
     (auto simp: draw1_def gen1_def nextU64_def nextF64_def nextU32Range_def option.map_comp
           split: prod.splits intro!: option.map_cong)

lemma draws_occupied:
  assumes "0 \<le> h" "h < int MAX_INSTANCES" "wf_instances insts" "insts ! nat h = Some st"
  shows "draws h ds insts = map_option (\<lambda>(rs, st'). (rs, insts[nat h := Some st'])) (gens ds st)"
  using assms(3,4)
proof (induction ds arbitrary: insts st)
  case Nil
  then show ?case by (simp add: list_update_same_conv) (metis list_update_id)
next
  case (Cons d ds)
  have lt: "nat h < length insts"
    using assms(1,2) Cons.prems(1) by (simp add: wf_instances_def)
  show ?case
  proof (cases "gen1 d st")
    case None
    then show ?thesis using draw1_occupied [OF assms(1,2) Cons.prems(2), of d] by simp
  next
    case (Some a)
    obtain r st' where a: "a = (r, st')" by (cases a)
    let ?i = "insts[nat h := Some st']"
    have d1: "draw1 h d insts = Some (r, ?i)"
      using draw1_occupied [OF assms(1,2) Cons.prems(2), of d] Some a by simp
    have "wf_instances ?i" "?i ! nat h = Some st'"
      using Cons.prems(1) lt by (simp_all add: wf_instances_def)
    then have ih: "draws h ds ?i =
        map_option (\<lambda>(rs, st''). (rs, ?i[nat h := Some st''])) (gens ds st')"
      by (rule Cons.IH)
    show ?thesis
      by (simp add: d1 Some a ih option.map_comp comp_def case_prod_unfold)
  qed
qed

subsection \<open>Empty slots seen through the wrapper\<close>

lemma Prng_destroy_empty:
  assumes "reg ! instance_ix p ! nat (handle p) = None"
  shows "Prng_destroy p reg = reg"
proof -
  have "destroy (handle p) (reg ! instance_ix p) = reg ! instance_ix p"
    using assms by (simp add: destroy_def) (metis list_update_id)
  then show ?thesis by (simp add: Prng_destroy_def)
qed

lemma Prng_draws_empty:
  assumes "reg ! instance_ix q ! nat (handle q) = None"
  shows "Prng_nextU64 q reg = (0, reg) \<and> Prng_nextF64 q reg = (0, reg) \<and>
         Prng_nextU32Range q mn mx reg = Some (mn, reg)"
  using assms
  by (simp add: Prng_nextU64_def Prng_nextF64_def Prng_nextU32Range_def
      nextU64_def nextF64_def nextU32Range_def)

section \<open>The claims\<close>

text \<open>
  Claim C1. For every generator state \<open>(s0,s1,s2,s3)\<close> stored in an occupied slot,
  \<open>nextU64\<close> on that handle returns \<open>rotl(s1 * 5, 7) * 9\<close> in wrapping 64-bit
  arithmetic and replaces the stored state by the one obtained from
  \<open>t = s1 << 17; s2 ^= s0; s3 ^= s1; s1 ^= s2; s0 ^= s3; s2 ^= t; s3 = rotl(s3, 45)\<close>,
  every other slot unchanged. The rotation is the word library's \<open>word_rotl\<close>. The
  step itself is the specification's: the export delegates to the library generator.
\<close>

theorem nextU64_is_xoshiro_step:
  assumes "wf_instances insts" "0 \<le> h" "h < int MAX_INSTANCES" "insts ! nat h = Some st"
  shows "nextU64 h insts =
     (word_rotl 7 (s1 st * 5) * 9,
      insts[nat h := Some \<lparr>s0 = s0 st XOR (s3 st XOR s1 st),
                             s1 = s1 st XOR (s2 st XOR s0 st),
                             s2 = (s2 st XOR s0 st) XOR push_bit 17 (s1 st),
                             s3 = word_rotl 45 (s3 st XOR s1 st)\<rparr>])"
  using assms(2-4) by (simp add: nextU64_def int_u64_def xoshiro_next_closed rotl_word_rotl)

theorem nextU64_is_xoshiro_step_witness:
  "wf_instances (fresh_instances[0 := Some \<lparr>s0 = 1, s1 = 2, s2 = 3, s3 = 4\<rparr>]) \<and>
   (0::int) < int MAX_INSTANCES \<and>
   fresh_instances[0 := Some \<lparr>s0 = 1, s1 = 2, s2 = 3, s3 = 4\<rparr>] ! nat 0 =
     Some \<lparr>s0 = 1, s1 = 2, s2 = 3, s3 = 4\<rparr> \<and>
   nextU64 0 (fresh_instances[0 := Some \<lparr>s0 = 1, s1 = 2, s2 = 3, s3 = 4\<rparr>]) =
     (11520,
      fresh_instances[0 := Some \<lparr>s0 = 7, s1 = 0, s2 = 262146, s3 = 211106232532992\<rparr>])"
proof -
  let ?i = "fresh_instances[0 := Some \<lparr>s0 = 1, s1 = 2, s2 = 3, s3 = 4\<rparr>]"
  have a: "wf_instances ?i" by (simp add: wf_instances_def fresh_instances_def)
  have b: "(0::int) \<le> 0" by simp
  have c: "(0::int) < int MAX_INSTANCES" by (simp add: MAX_INSTANCES_def)
  have d: "?i ! nat 0 = Some \<lparr>s0 = 1, s1 = 2, s2 = 3, s3 = 4\<rparr>"
    by (simp add: fresh_instances_def MAX_INSTANCES_def)
  have r: "word_rotl 7 (10 :: u64) = 1280" "word_rotl 45 (6 :: u64) = 211106232532992"
    by (simp_all add: rotl_word_rotl [symmetric] rotl_def)
  show ?thesis
    using a c d nextU64_is_xoshiro_step [OF a b c d] by (simp add: r)
qed

text \<open>
  Claim C2. Two generators created with the same seed, in any two well-formed slot
  arrays and so possibly at different handles, return the same values for every
  list of draw operations, element for element. Where the rejection loop of a range
  draw does not return, it does not return on either side.
\<close>

theorem same_seed_same_draws:
  assumes "wf_instances p1" "wf_instances p2"
    "create s p1 = (h1, q1)" "create s p2 = (h2, q2)" "0 \<le> h1" "0 \<le> h2"
  shows "map_option fst (draws h1 ds q1) = map_option fst (draws h2 ds q2)"
proof -
  have 1: "h1 < int MAX_INSTANCES \<and> wf_instances q1 \<and> p1 ! nat h1 = None \<and>
           q1 ! nat h1 = Some (xoshiro_init s)"
    using assms(1,3,5) by (rule create_allocates)
  have 2: "h2 < int MAX_INSTANCES \<and> wf_instances q2 \<and> p2 ! nat h2 = None \<and>
           q2 ! nat h2 = Some (xoshiro_init s)"
    using assms(2,4,6) by (rule create_allocates)
  have "map_option fst (draws h1 ds q1) = map_option fst (gens ds (xoshiro_init s))"
    using 1 assms(5) by (simp add: draws_occupied option.map_comp comp_def case_prod_unfold)
  moreover have "map_option fst (draws h2 ds q2) = map_option fst (gens ds (xoshiro_init s))"
    using 2 assms(6) by (simp add: draws_occupied option.map_comp comp_def case_prod_unfold)
  ultimately show ?thesis by simp
qed

theorem same_seed_same_draws_witness:
  "wf_instances fresh_instances \<and>
   wf_instances (Some \<lparr>s0 = 1, s1 = 2, s2 = 3, s3 = 4\<rparr> # replicate 255 None) \<and>
   create 42 fresh_instances = (0, Some (xoshiro_init 42) # replicate 255 None) \<and>
   create 42 (Some \<lparr>s0 = 1, s1 = 2, s2 = 3, s3 = 4\<rparr> # replicate 255 None) =
     (1, Some \<lparr>s0 = 1, s1 = 2, s2 = 3, s3 = 4\<rparr> # Some (xoshiro_init 42) # replicate 254 None) \<and>
   map_option fst
     (draws 0 [NextU64, NextF64, NextU32Range 0 1000, NextU64, NextF64]
        (Some (xoshiro_init 42) # replicate 255 None)) =
     Some [U64 1546998764402558742, F64 (3413550631330343 / 2 ^ 53), U32 992,
           U64 17057574109182124193, F64 (8933375477570955 / 2 ^ 53)] \<and>
   map_option fst
     (draws 1 [NextU64, NextF64, NextU32Range 0 1000, NextU64, NextF64]
        (Some \<lparr>s0 = 1, s1 = 2, s2 = 3, s3 = 4\<rparr> # Some (xoshiro_init 42) # replicate 254 None)) =
     Some [U64 1546998764402558742, F64 (3413550631330343 / 2 ^ 53), U32 992,
           U64 17057574109182124193, F64 (8933375477570955 / 2 ^ 53)]"
proof -
  let ?st = "\<lparr>s0 = 1, s1 = 2, s2 = 3, s3 = 4\<rparr>"
  let ?ds = "[NextU64, NextF64, NextU32Range 0 1000, NextU64, NextF64]"
  let ?q1 = "Some (xoshiro_init 42) # replicate 255 None"
  let ?out = "[U64 1546998764402558742, F64 (3413550631330343 / 2 ^ 53), U32 992,
           U64 17057574109182124193, F64 (8933375477570955 / 2 ^ 53)]"
  have a: "wf_instances fresh_instances"
    by (simp add: wf_instances_def fresh_instances_def)
  have b: "wf_instances (Some ?st # replicate 255 None)"
    by (simp add: wf_instances_def MAX_INSTANCES_def)
  have c: "create 42 fresh_instances = (0, ?q1)"
    by (simp add: create_fresh MAX_INSTANCES_def)
  have d: "create 42 (Some ?st # replicate 255 None) =
             (1, Some ?st # Some (xoshiro_init 42) # replicate 254 None)"
    using create_prefix [of "[Some ?st]" 42] by (simp add: MAX_INSTANCES_def)
  have e: "(0::int) \<le> 0" "(0::int) \<le> 1" by simp_all
  have i: "xoshiro_init 42 = \<lparr>s0 = 13679457532755275413, s1 = 2949826092126892291,
             s2 = 5139283748462763858, s3 = 6349198060258255764\<rparr>"
    by (simp add: xoshiro_init_def splitmix_next_def Let_def)
  have g: "map_option fst (gens ?ds (xoshiro_init 42)) = Some ?out"
    by (simp add: i gen1_def int_u64_def float_f64_def intRangeAtMost_def reject_loop.simps
        xoshiro_next_closed rotl_def)
  have q: "wf_instances ?q1" "(0::int) < int MAX_INSTANCES" "?q1 ! nat 0 = Some (xoshiro_init 42)"
    by (simp_all add: wf_instances_def MAX_INSTANCES_def)
  have "map_option fst (draws 0 ?ds ?q1) = map_option fst (gens ?ds (xoshiro_init 42))"
    unfolding draws_occupied [OF e(1) q(2) q(1) q(3)]
    by (simp add: option.map_comp comp_def case_prod_unfold del: gens.simps)
  then have 1: "map_option fst (draws 0 ?ds ?q1) = Some ?out" using g by simp
  have 2: "map_option fst (draws 1 ?ds (Some ?st # Some (xoshiro_init 42) # replicate 254 None)) =
        Some ?out"
    using same_seed_same_draws [OF a b c d e, of ?ds] 1 by simp
  from a b c d 1 2 show ?thesis by blast
qed

text \<open>
  Claim C3. For every handle and all 32-bit arguments with \<open>min > max\<close>,
  \<open>nextU32Range\<close> returns \<open>min\<close> and the slot array, the stored generator
  included, is unchanged. For an occupied slot this is the behaviour the
  specification gives to the range function the export delegates to; the export has
  no check of its own.
\<close>

theorem inverted_range_returns_min:
  assumes "max' < min'"
  shows "nextU32Range h min' max' insts = Some (min', insts)"
  using assms
  by (auto simp: nextU32Range_def intRangeAtMost_def split: option.splits)
     (metis list_update_id)

theorem inverted_range_returns_min_witness:
  "(10 :: u32) < 20 \<and>
   nextU32Range 0 20 10 (fresh_instances[0 := Some \<lparr>s0 = 1, s1 = 2, s2 = 3, s3 = 4\<rparr>]) =
     Some (20, fresh_instances[0 := Some \<lparr>s0 = 1, s1 = 2, s2 = 3, s3 = 4\<rparr>])"
proof -
  have a: "(10 :: u32) < 20" by simp
  show ?thesis using a inverted_range_returns_min [OF a] by simp
qed

text \<open>
  Claim C4. On a well-formed array \<open>create\<close> either finds the first empty slot, at an
  index \<open>k\<close> with every slot below it occupied, stores the expanded seed there and
  returns \<open>k\<close>, a value between 0 and 255, changing no other slot; or every slot is
  occupied and it returns \<open>-1\<close> with the array unchanged.
\<close>

theorem create_first_empty_or_nothing:
  assumes "wf_instances insts"
  shows "(\<exists>k < MAX_INSTANCES. insts ! k = None \<and> (\<forall>j < k. insts ! j \<noteq> None) \<and>
            create s insts = (int k, insts[k := Some (xoshiro_init s)]) \<and>
            0 \<le> fst (create s insts) \<and> fst (create s insts) \<le> 255)
       \<or> ((\<forall>j < MAX_INSTANCES. insts ! j \<noteq> None) \<and> create s insts = (- 1, insts))"
  using create_spec [of insts s] by (auto simp: MAX_INSTANCES_def)

theorem create_first_empty_or_nothing_witness:
  "wf_instances (Some \<lparr>s0 = 1, s1 = 2, s2 = 3, s3 = 4\<rparr> # replicate 255 None) \<and>
   create 7 (Some \<lparr>s0 = 1, s1 = 2, s2 = 3, s3 = 4\<rparr> # replicate 255 None) =
     (1, Some \<lparr>s0 = 1, s1 = 2, s2 = 3, s3 = 4\<rparr> # Some (xoshiro_init 7) # replicate 254 None) \<and>
   wf_instances (replicate 256 (Some \<lparr>s0 = 1, s1 = 2, s2 = 3, s3 = 4\<rparr>)) \<and>
   create 7 (replicate 256 (Some \<lparr>s0 = 1, s1 = 2, s2 = 3, s3 = 4\<rparr>)) =
     (- 1, replicate 256 (Some \<lparr>s0 = 1, s1 = 2, s2 = 3, s3 = 4\<rparr>))"
proof -
  let ?st = "\<lparr>s0 = 1, s1 = 2, s2 = 3, s3 = 4\<rparr>"
  let ?p = "Some ?st # replicate 255 None"
  let ?f = "replicate 256 (Some ?st)"
  have a: "wf_instances ?p" by (simp add: wf_instances_def MAX_INSTANCES_def)
  have b: "wf_instances ?f" by (simp add: wf_instances_def MAX_INSTANCES_def)
  have 1: "create 7 ?p = (1, Some ?st # Some (xoshiro_init 7) # replicate 254 None)"
  proof -
    have "?p ! 1 = None \<and> 1 < MAX_INSTANCES" by (simp add: MAX_INSTANCES_def)
    then have "\<not> (\<forall>j < MAX_INSTANCES. ?p ! j \<noteq> None)" by blast
    with create_first_empty_or_nothing [OF a, of 7]
    have "\<exists>k < MAX_INSTANCES. ?p ! k = None \<and> (\<forall>j < k. ?p ! j \<noteq> None) \<and>
            create 7 ?p = (int k, ?p[k := Some (xoshiro_init 7)])"
      by blast
    then obtain k where k: "k < MAX_INSTANCES" "?p ! k = None" "\<forall>j < k. ?p ! j \<noteq> None"
      "create 7 ?p = (int k, ?p[k := Some (xoshiro_init 7)])" by blast
    have "k \<noteq> 0" using k(2) by (cases k) simp_all
    moreover have "?p ! 1 = None" by simp
    then have "\<not> 1 < k" using k(3) by blast
    ultimately have "k = 1" by simp
    have "replicate 255 None = (None :: xoshiro option) # replicate 254 None"
      by (simp add: replicate_Suc [symmetric] del: replicate_Suc)
    with k(4) \<open>k = 1\<close> show ?thesis by simp
  qed
  have 2: "create 7 ?f = (- 1, ?f)"
    using create_first_empty_or_nothing [OF b, of 7] by (auto simp: MAX_INSTANCES_def)
  show ?thesis using a b 1 2 by simp
qed

text \<open>
  Claim C5. \<open>Prng.create\<close> tries the modules in the order of the registry. When
  module \<open>k\<close> is the first with an empty slot, \<open>create\<close> succeeds there, the result
  is that module with the handle it returned, and only that module changes. When
  every module is full it raises \<open>NoCapacity\<close> and the registry, its length
  included, is unchanged.
\<close>

theorem createSync_first_fit_or_NoCapacity:
  assumes "\<forall>p \<in> set reg. wf_instances p"
  shows "(k < length reg \<and> \<not> full (reg ! k) \<and> (\<forall>j < k. full (reg ! j)) \<longrightarrow>
            0 \<le> fst (create (seed_u64 seed) (reg ! k)) \<and>
            Prng_create seed reg =
              (Inr \<lparr>instance_ix = k, handle = fst (create (seed_u64 seed) (reg ! k))\<rparr>,
               reg[k := snd (create (seed_u64 seed) (reg ! k))]))
       \<and> ((\<forall>p \<in> set reg. full p) \<longrightarrow> Prng_create seed reg = (Inl NoCapacity, reg))"
proof (intro conjI impI)
  assume k: "k < length reg \<and> \<not> full (reg ! k) \<and> (\<forall>j < k. full (reg ! j))"
  then have "wf_instances (reg ! k)" using assms by simp
  then show "0 \<le> fst (create (seed_u64 seed) (reg ! k))"
    using k by (simp add: create_not_full_nonneg)
  show "Prng_create seed reg =
              (Inr \<lparr>instance_ix = k, handle = fst (create (seed_u64 seed) (reg ! k))\<rparr>,
               reg[k := snd (create (seed_u64 seed) (reg ! k))])"
  proof -
    from k have k1: "k < length reg" and k2: "\<not> full (reg ! k)"
      and k3: "\<forall>j < k. full (reg ! j)" by auto
    show ?thesis by (simp add: Prng_create_def scan_first_free_nth [OF assms k1 k2 k3])
  qed
next
  assume "\<forall>p \<in> set reg. full p"
  then show "Prng_create seed reg = (Inl NoCapacity, reg)"
    using assms by (simp add: Prng_create_def scan_all_full)
qed

theorem createSync_first_fit_or_NoCapacity_witness:
  "wf_instances (replicate 256 (Some \<lparr>s0 = 1, s1 = 2, s2 = 3, s3 = 4\<rparr>)) \<and>
   wf_instances fresh_instances \<and>
   full (replicate 256 (Some \<lparr>s0 = 1, s1 = 2, s2 = 3, s3 = 4\<rparr>)) \<and>
   Prng_create 5 [replicate 256 (Some \<lparr>s0 = 1, s1 = 2, s2 = 3, s3 = 4\<rparr>), fresh_instances] =
     (Inr \<lparr>instance_ix = 1, handle = 0\<rparr>,
      [replicate 256 (Some \<lparr>s0 = 1, s1 = 2, s2 = 3, s3 = 4\<rparr>),
       Some (xoshiro_init 5) # replicate 255 None]) \<and>
   Prng_create 5 [replicate 256 (Some \<lparr>s0 = 1, s1 = 2, s2 = 3, s3 = 4\<rparr>)] =
     (Inl NoCapacity, [replicate 256 (Some \<lparr>s0 = 1, s1 = 2, s2 = 3, s3 = 4\<rparr>)])"
proof -
  let ?f = "replicate 256 (Some \<lparr>s0 = 1, s1 = 2, s2 = 3, s3 = 4\<rparr>)"
  have a: "wf_instances ?f" by (simp add: wf_instances_def MAX_INSTANCES_def)
  have b: "wf_instances fresh_instances" by (simp add: wf_instances_def fresh_instances_def)
  have c: "full ?f" by (simp add: full_def)
  have d: "\<not> full fresh_instances"
    by (simp add: full_def fresh_instances_def MAX_INSTANCES_def)
  have s: "seed_u64 5 = 5" by (simp add: seed_u64_def)
  have w2: "\<forall>p \<in> set [?f, fresh_instances]. wf_instances p" using a b by simp
  have w1: "\<forall>p \<in> set [?f]. wf_instances p" using a by simp
  have 1: "Prng_create 5 [?f, fresh_instances] =
     (Inr \<lparr>instance_ix = 1, handle = 0\<rparr>, [?f, Some (xoshiro_init 5) # replicate 255 None])"
    using createSync_first_fit_or_NoCapacity [OF w2, of 1 5] c d
    by (simp add: s create_fresh MAX_INSTANCES_def)
  have 2: "Prng_create 5 [?f] = (Inl NoCapacity, [?f])"
    using createSync_first_fit_or_NoCapacity [OF w1, of 0 5] c by simp
  show ?thesis using a b c 1 2 by simp
qed

text \<open>
  Claim C6. \<open>createAsync\<close> scans the modules as \<open>create\<close> does and, with all of
  them full, instantiates one module, appends it and allocates the seed there; in
  particular 512 allocations from a fresh registry succeed and span exactly two
  modules of 256 slots. The code does this for calls awaited one by one
  (\<open>createAsync_awaited\<close>). It does not for calls issued together, the pattern of the
  repository's own documentation (\<open>Promise.all\<close> over \<open>Prng.createAsync\<close>, said
  there to create about 4 modules for 1000 streams): of 512 such calls on the initial
  registry all succeed, the first 256 fill module 0, and the other 256 have each
  scanned before any module was pushed, so each pushes its own. The registry ends
  with 257 modules, 256 of them holding one generator.
\<close>

theorem createAsync_together_512_gives_257_modules:
  "createAsync_together (map int [0..<512]) initial_registry =
     (map (\<lambda>k. Inr \<lparr>instance_ix = 0, handle = int k\<rparr>) [0..<256] @
      map (\<lambda>i. Inr \<lparr>instance_ix = i, handle = 0\<rparr>) [1..<257],
      map (\<lambda>s. Some (xoshiro_init (seed_u64 s))) (map int [0..<256]) #
      map (\<lambda>s. Some (xoshiro_init (seed_u64 s)) # replicate 255 None) (map int [256..<512]))
   \<and> length (snd (createAsync_together (map int [0..<512]) initial_registry)) = 257"
proof -
  have l: "length (map int [0..<512]) = 2 * MAX_INSTANCES" by (simp add: MAX_INSTANCES_def)
  have t: "take 256 (map int [0..<512]) = map int [0..<256]"
          "drop 256 (map int [0..<512]) = map int [256..<512]"
    by (simp_all add: take_map drop_map del: upt_Suc)
  have e: "createAsync_together (map int [0..<512]) initial_registry =
     (map (\<lambda>k. Inr \<lparr>instance_ix = 0, handle = int k\<rparr>) [0..<256] @
      map (\<lambda>i. Inr \<lparr>instance_ix = i, handle = 0\<rparr>) [1..<257],
      map (\<lambda>s. Some (xoshiro_init (seed_u64 s))) (map int [0..<256]) #
      map (\<lambda>s. Some (xoshiro_init (seed_u64 s)) # replicate 255 None) (map int [256..<512]))"
    using createAsync_together_one_module_each [OF l]
    by (simp add: MAX_INSTANCES_def t del: upt_Suc)
  have "length (snd (createAsync_together (map int [0..<512]) initial_registry)) = 257"
    unfolding e by simp
  with e show ?thesis by blast
qed

text \<open>
  Claim C7. For a handle that is negative, at least 256, or whose slot is empty, the
  draws return 0, 0.0 and \<open>min\<close> and leave the whole array as it was. In particular
  this is so for every handle right after \<open>destroy\<close> on it.
\<close>

theorem draws_on_dead_handle_are_defaults:
  "(h < 0 \<or> int MAX_INSTANCES \<le> h \<or> insts ! nat h = None \<longrightarrow>
      nextU64 h insts = (0, insts) \<and> nextF64 h insts = (0, insts) \<and>
      nextU32Range h min' max' insts = Some (min', insts))
   \<and> (wf_instances insts \<longrightarrow>
      nextU64 h (destroy h insts) = (0, destroy h insts) \<and>
      nextF64 h (destroy h insts) = (0, destroy h insts) \<and>
      nextU32Range h min' max' (destroy h insts) = Some (min', destroy h insts))"
proof (rule conjI; rule impI)
  assume a: "h < 0 \<or> int MAX_INSTANCES \<le> h \<or> insts ! nat h = None"
  show "nextU64 h insts = (0, insts) \<and> nextF64 h insts = (0, insts) \<and>
      nextU32Range h min' max' insts = Some (min', insts)"
    using a by (auto simp: nextU64_def nextF64_def nextU32Range_def)
next
  assume w: "wf_instances insts"
  have "h < 0 \<or> int MAX_INSTANCES \<le> h \<or> destroy h insts ! nat h = None"
  proof (cases "0 \<le> h \<and> h < int MAX_INSTANCES")
    case True
    then have "nat h < MAX_INSTANCES" by linarith
    then have "nat h < length insts" using w by (simp add: wf_instances_def)
    then show ?thesis using True by (simp add: destroy_def)
  next
    case False
    then show ?thesis by auto
  qed
  then show "nextU64 h (destroy h insts) = (0, destroy h insts) \<and>
      nextF64 h (destroy h insts) = (0, destroy h insts) \<and>
      nextU32Range h min' max' (destroy h insts) = Some (min', destroy h insts)"
    by (auto simp: nextU64_def nextF64_def nextU32Range_def)
qed

theorem draws_on_dead_handle_are_defaults_witness:
  "nextU64 (- 1) (Some \<lparr>s0 = 1, s1 = 2, s2 = 3, s3 = 4\<rparr> # replicate 255 None) =
     (0, Some \<lparr>s0 = 1, s1 = 2, s2 = 3, s3 = 4\<rparr> # replicate 255 None) \<and>
   nextF64 256 (Some \<lparr>s0 = 1, s1 = 2, s2 = 3, s3 = 4\<rparr> # replicate 255 None) =
     (0, Some \<lparr>s0 = 1, s1 = 2, s2 = 3, s3 = 4\<rparr> # replicate 255 None) \<and>
   (Some \<lparr>s0 = 1, s1 = 2, s2 = 3, s3 = 4\<rparr> # replicate 255 None) ! nat 5 = None \<and>
   nextU32Range 5 10 20 (Some \<lparr>s0 = 1, s1 = 2, s2 = 3, s3 = 4\<rparr> # replicate 255 None) =
     Some (10, Some \<lparr>s0 = 1, s1 = 2, s2 = 3, s3 = 4\<rparr> # replicate 255 None) \<and>
   wf_instances (Some \<lparr>s0 = 1, s1 = 2, s2 = 3, s3 = 4\<rparr> # replicate 255 None) \<and>
   destroy 0 (Some \<lparr>s0 = 1, s1 = 2, s2 = 3, s3 = 4\<rparr> # replicate 255 None) =
     None # replicate 255 None \<and>
   nextU64 0 (None # replicate 255 None) = (0, None # replicate 255 None) \<and>
   nextF64 0 (None # replicate 255 None) = (0, None # replicate 255 None) \<and>
   nextU32Range 0 10 20 (None # replicate 255 None) = Some (10, None # replicate 255 None)"
proof -
  let ?p = "Some \<lparr>s0 = 1, s1 = 2, s2 = 3, s3 = 4\<rparr> # replicate 255 None"
  have e: "?p ! nat 5 = None" by simp
  have w: "wf_instances ?p" by (simp add: wf_instances_def MAX_INSTANCES_def)
  have d: "destroy 0 ?p = None # replicate 255 None"
    by (simp add: destroy_def MAX_INSTANCES_def)
  have 1: "nextU64 (- 1) ?p = (0, ?p)"
    using draws_on_dead_handle_are_defaults [of "- 1" ?p] by simp
  have 2: "nextF64 256 ?p = (0, ?p)"
    using draws_on_dead_handle_are_defaults [of 256 ?p] by (simp add: MAX_INSTANCES_def)
  have 3: "nextU32Range 5 10 20 ?p = Some (10, ?p)"
    using draws_on_dead_handle_are_defaults [of 5 ?p 10 20] e by simp
  have 4: "nextU64 0 (None # replicate 255 None) = (0, None # replicate 255 None) \<and>
   nextF64 0 (None # replicate 255 None) = (0, None # replicate 255 None) \<and>
   nextU32Range 0 10 20 (None # replicate 255 None) = Some (10, None # replicate 255 None)"
    using draws_on_dead_handle_are_defaults [of 0 ?p 10 20] w unfolding d by blast
  from 1 2 e 3 w d 4 show ?thesis by blast
qed

text \<open>
  Claim C8. \<open>destroy\<close> is a total function of the handle and the array. Applied twice
  it gives what it gives applied once. For a handle within bounds it empties that
  slot and no other; for a handle out of bounds, or one whose slot is already empty,
  the array is unchanged.
\<close>

theorem destroy_idempotent:
  "destroy h (destroy h insts) = destroy h insts
   \<and> (wf_instances insts \<and> 0 \<le> h \<and> h < int MAX_INSTANCES \<longrightarrow>
        destroy h insts = insts[nat h := None] \<and> destroy h insts ! nat h = None \<and>
        wf_instances (destroy h insts) \<and>
        (\<forall>j. j \<noteq> nat h \<longrightarrow> destroy h insts ! j = insts ! j))
   \<and> (h < 0 \<or> int MAX_INSTANCES \<le> h \<or> insts ! nat h = None \<longrightarrow> destroy h insts = insts)"
proof (rule conjI [OF _ conjI]; (rule impI)?)
  show "destroy h (destroy h insts) = destroy h insts" by (simp add: destroy_def)
next
  assume a: "wf_instances insts \<and> 0 \<le> h \<and> h < int MAX_INSTANCES"
  then have "nat h < MAX_INSTANCES" by linarith
  then have "nat h < length insts" using a by (simp add: wf_instances_def)
  then show "destroy h insts = insts[nat h := None] \<and> destroy h insts ! nat h = None \<and>
        wf_instances (destroy h insts) \<and>
        (\<forall>j. j \<noteq> nat h \<longrightarrow> destroy h insts ! j = insts ! j)"
    using a by (simp add: destroy_def wf_instances_def)
next
  assume "h < 0 \<or> int MAX_INSTANCES \<le> h \<or> insts ! nat h = None"
  then show "destroy h insts = insts"
    by (auto simp: destroy_def) (metis list_update_id)
qed

theorem destroy_idempotent_witness:
  "wf_instances (Some \<lparr>s0 = 1, s1 = 2, s2 = 3, s3 = 4\<rparr> # replicate 255 None) \<and>
   destroy 0 (Some \<lparr>s0 = 1, s1 = 2, s2 = 3, s3 = 4\<rparr> # replicate 255 None) =
     None # replicate 255 None \<and>
   destroy 0 (None # replicate 255 None) = None # replicate 255 None \<and>
   destroy (- 1) (Some \<lparr>s0 = 1, s1 = 2, s2 = 3, s3 = 4\<rparr> # replicate 255 None) =
     Some \<lparr>s0 = 1, s1 = 2, s2 = 3, s3 = 4\<rparr> # replicate 255 None \<and>
   destroy 256 (Some \<lparr>s0 = 1, s1 = 2, s2 = 3, s3 = 4\<rparr> # replicate 255 None) =
     Some \<lparr>s0 = 1, s1 = 2, s2 = 3, s3 = 4\<rparr> # replicate 255 None"
proof -
  let ?p = "Some \<lparr>s0 = 1, s1 = 2, s2 = 3, s3 = 4\<rparr> # replicate 255 None"
  have w: "wf_instances ?p" by (simp add: wf_instances_def MAX_INSTANCES_def)
  have 1: "destroy 0 ?p = None # replicate 255 None"
    using destroy_idempotent [of 0 ?p] w by (simp add: MAX_INSTANCES_def)
  have 2: "destroy 0 (None # replicate 255 None) = None # replicate 255 None"
    using destroy_idempotent [of 0 ?p] unfolding 1 by blast
  have 3: "destroy (- 1) ?p = ?p"
    using destroy_idempotent [of "- 1" ?p] by simp
  have 4: "destroy 256 ?p = ?p"
    using destroy_idempotent [of 256 ?p] by (simp add: MAX_INSTANCES_def)
  from w 1 2 3 4 show ?thesis by blast
qed

text \<open>
  Claim C9. For an occupied handle \<open>nextF64\<close> returns the high 53 bits of the word the
  generator produces from the stored state, divided by \<open>2^53\<close>, and stores the
  generator's new state. The value is at least 0 and below 1, so never 1. It can be 0:
  it is for the state \<open>(1,0,0,0)\<close> in that slot, a state that is not all zero (no
  seed is exhibited that reaches it). The formula is the specification's: the export
  delegates to the library's float function.
\<close>

theorem nextF64_high_53_bits:
  assumes "wf_instances insts" "0 \<le> h" "h < int MAX_INSTANCES" "insts ! nat h = Some st"
  shows "fst (nextF64 h insts) = of_int (uint (fst (xoshiro_next st)) div 2 ^ 11) / 2 ^ 53
       \<and> snd (nextF64 h insts) = insts[nat h := Some (snd (xoshiro_next st))]
       \<and> 0 \<le> fst (nextF64 h insts) \<and> fst (nextF64 h insts) < 1
       \<and> fst (nextF64 h insts) \<noteq> 1
       \<and> fst (nextF64 h (insts[nat h := Some \<lparr>s0 = 1, s1 = 0, s2 = 0, s3 = 0\<rparr>])) = 0"
proof -
  have v: "fst (nextF64 h insts) = fst (float_f64 st)"
    using assms(2-4) by (simp add: nextF64_def split: prod.splits)
  have s: "snd (nextF64 h insts) = insts[nat h := Some (snd (xoshiro_next st))]"
    using assms(2-4) by (simp add: nextF64_def float_f64_def split: prod.splits)
  have "nat h < MAX_INSTANCES" using assms(2,3) by linarith
  then have l: "nat h < length insts" using assms(1) by (simp add: wf_instances_def)
  have z: "fst (nextF64 h (insts[nat h := Some \<lparr>s0 = 1, s1 = 0, s2 = 0, s3 = 0\<rparr>])) = 0"
    using assms(2,3) l
    by (simp add: nextF64_def float_f64_def xoshiro_next_closed rotl_def)
  show ?thesis
    using v s z float_value [of st] float_bounds [of st] by simp
qed

theorem nextF64_high_53_bits_witness:
  "wf_instances (Some \<lparr>s0 = 1, s1 = 2, s2 = 3, s3 = 4\<rparr> # replicate 255 None) \<and>
   (0::int) < int MAX_INSTANCES \<and>
   (Some \<lparr>s0 = 1, s1 = 2, s2 = 3, s3 = 4\<rparr> # replicate 255 None) ! nat 0 =
     Some \<lparr>s0 = 1, s1 = 2, s2 = 3, s3 = 4\<rparr> \<and>
   nextF64 0 (Some \<lparr>s0 = 1, s1 = 2, s2 = 3, s3 = 4\<rparr> # replicate 255 None) =
     (5 / 2 ^ 53,
      Some \<lparr>s0 = 7, s1 = 0, s2 = 262146, s3 = 211106232532992\<rparr> # replicate 255 None) \<and>
   fst (nextF64 0 (Some \<lparr>s0 = 1, s1 = 0, s2 = 0, s3 = 0\<rparr> # replicate 255 None)) = 0"
proof -
  let ?st = "\<lparr>s0 = 1, s1 = 2, s2 = 3, s3 = 4\<rparr>"
  let ?p = "Some ?st # replicate 255 None"
  have a: "wf_instances ?p" by (simp add: wf_instances_def MAX_INSTANCES_def)
  have b: "(0::int) \<le> 0" by simp
  have c: "(0::int) < int MAX_INSTANCES" by (simp add: MAX_INSTANCES_def)
  have d: "?p ! nat 0 = Some ?st" by simp
  have n: "xoshiro_next ?st = (11520, \<lparr>s0 = 7, s1 = 0, s2 = 262146, s3 = 211106232532992\<rparr>)"
    by (simp add: xoshiro_next_closed rotl_def)
  have "nextF64 0 ?p = (fst (nextF64 0 ?p), snd (nextF64 0 ?p))" by simp
  also have "\<dots> = (5 / 2 ^ 53,
      Some \<lparr>s0 = 7, s1 = 0, s2 = 262146, s3 = 211106232532992\<rparr> # replicate 255 None)"
    using nextF64_high_53_bits [OF a b c d] by (simp add: n)
  finally have 1: "nextF64 0 ?p = (5 / 2 ^ 53,
      Some \<lparr>s0 = 7, s1 = 0, s2 = 262146, s3 = 211106232532992\<rparr> # replicate 255 None)" .
  have 2: "fst (nextF64 0 (Some \<lparr>s0 = 1, s1 = 0, s2 = 0, s3 = 0\<rparr> # replicate 255 None)) = 0"
    using nextF64_high_53_bits [OF a b c d] by simp
  from a c d 1 2 show ?thesis by blast
qed

text \<open>
  Claim C10. A \<open>Prng\<close> object keeps its handle after \<open>destroy\<close>. Let a later
  \<open>Prng.create\<close> return an object \<open>q\<close> with the module and handle of an object
  \<open>p\<close>. Then \<open>p\<close>'s slot was empty before that call, so \<open>p.destroy()\<close> was a no-op
  there; after the call the slot holds \<open>q\<close>'s generator; and \<open>p.destroy()\<close> called
  now empties it, after which every draw on \<open>q\<close> returns its default.
\<close>

theorem stale_wrapper_destroy_frees_reused_slot:
  assumes "\<forall>m \<in> set reg. wf_instances m" "Prng_create seed reg = (Inr q, reg2)"
    "instance_ix q = instance_ix p" "handle q = handle p"
  shows "Prng_destroy p reg = reg \<and>
         reg2 ! instance_ix q ! nat (handle q) = Some (xoshiro_init (seed_u64 seed)) \<and>
         Prng_destroy p reg2 ! instance_ix q ! nat (handle q) = None \<and>
         Prng_nextU64 q (Prng_destroy p reg2) = (0, Prng_destroy p reg2) \<and>
         Prng_nextF64 q (Prng_destroy p reg2) = (0, Prng_destroy p reg2) \<and>
         Prng_nextU32Range q min' max' (Prng_destroy p reg2) = Some (min', Prng_destroy p reg2)"
proof -
  note r = Prng_create_result [OF assms(1,2)]
  have 1: "Prng_destroy p reg = reg"
    using r assms(3,4) by (intro Prng_destroy_empty) simp
  have "wf_instances (reg2 ! instance_ix q)" using r by simp
  moreover have "nat (handle q) < MAX_INSTANCES" using r by linarith
  ultimately have "nat (handle q) < length (reg2 ! instance_ix q)"
    by (simp add: wf_instances_def)
  then have 3: "Prng_destroy p reg2 ! instance_ix q ! nat (handle q) = None"
    using r assms(3,4) by (simp add: Prng_destroy_def destroy_def)
  show ?thesis using 1 r 3 Prng_draws_empty [OF 3] by simp
qed

theorem stale_wrapper_destroy_frees_reused_slot_witness:
  "wf_instances fresh_instances \<and>
   Prng_create 111 initial_registry =
     (Inr \<lparr>instance_ix = 0, handle = 0\<rparr>, [Some (xoshiro_init 111) # replicate 255 None]) \<and>
   Prng_destroy \<lparr>instance_ix = 0, handle = 0\<rparr> [Some (xoshiro_init 111) # replicate 255 None] =
     initial_registry \<and>
   Prng_create 222 initial_registry =
     (Inr \<lparr>instance_ix = 0, handle = 0\<rparr>, [Some (xoshiro_init 222) # replicate 255 None]) \<and>
   Prng_destroy \<lparr>instance_ix = 0, handle = 0\<rparr> [Some (xoshiro_init 222) # replicate 255 None] =
     initial_registry \<and>
   Prng_nextU64 \<lparr>instance_ix = 0, handle = 0\<rparr> initial_registry = (0, initial_registry) \<and>
   Prng_nextF64 \<lparr>instance_ix = 0, handle = 0\<rparr> initial_registry = (0, initial_registry) \<and>
   Prng_nextU32Range \<lparr>instance_ix = 0, handle = 0\<rparr> 10 20 initial_registry =
     Some (10, initial_registry)"
proof -
  let ?p = "\<lparr>instance_ix = 0, handle = 0\<rparr>"
  have w: "wf_instances fresh_instances" by (simp add: wf_instances_def fresh_instances_def)
  then have wr: "\<forall>m \<in> set initial_registry. wf_instances m" by (simp add: initial_registry_def)
  note f = fresh_instances_Cons
  have c: "\<And>s. s < 2 ^ 64 \<Longrightarrow> 0 \<le> s \<Longrightarrow> Prng_create s initial_registry =
     (Inr ?p, [Some (xoshiro_init (word_of_int s)) # replicate 255 None])"
    by (simp add: Prng_create_def initial_registry_def create_fresh seed_u64_def MAX_INSTANCES_def)
  have c1: "Prng_create 111 initial_registry = (Inr ?p, [Some (xoshiro_init 111) # replicate 255 None])"
    using c [of 111] by simp
  have c2: "Prng_create 222 initial_registry = (Inr ?p, [Some (xoshiro_init 222) # replicate 255 None])"
    using c [of 222] by simp
  have d: "\<And>x. Prng_destroy ?p [Some x # replicate 255 None] = initial_registry"
    by (simp add: Prng_destroy_def destroy_def initial_registry_def f MAX_INSTANCES_def)
  have "Prng_nextU64 ?p initial_registry = (0, initial_registry) \<and>
   Prng_nextF64 ?p initial_registry = (0, initial_registry) \<and>
   Prng_nextU32Range ?p 10 20 initial_registry = Some (10, initial_registry)"
    using stale_wrapper_destroy_frees_reused_slot [OF wr c2, of ?p 10 20]
    unfolding d by simp
  with w c1 c2 d show ?thesis by blast
qed

end
